theory Spec2Isabelle
  imports Main
begin

section \<open>Event name parsing\<close>

text \<open>
  The event module parses a raw property name such as \<open>onClick\<close> or \<open>on:click\<close>
  into the name of the DOM event and the listener options:
  \<^verbatim>\<open>
  function parseName(name: string): [string, EventListenerOptions | undefined] {
    let options: EventListenerOptions | undefined;
    const event = name[2] === ":" ? name.slice(3) : hyphenate(name.slice(2));
    return [event, options];
  }
  \<close>
  Strings are character lists; \<open>name[2]\<close> beyond the end is \<open>undefined\<close>, which is
  not \<open>":"\<close>, and \<open>slice\<close> beyond the end is the empty string, as \<open>drop\<close> is.
\<close>

text \<open>
  Modelled from the spec: \<open>hyphenate\<close> is imported from the package \<open>@mini/shared\<close>,
  which is not among the sources. The spec gives its contract (camelCase to
  hyphen-lowercase, \<open>Click\<close> to \<open>click\<close>, \<open>DoubleClick\<close> to \<open>double-click\<close>) and the header
  of the event module names the regular expression it uses, \<open>/\B([A-Z])/g\<close>: a hyphen goes
  before every capital letter that follows a word character, and the result is put in
  lower case. Characters are those of ASCII. The definitions up to \<open>hyphenate\<close> are its
  parts.
\<close>

definition isUpper :: "char \<Rightarrow> bool" where
  "isUpper c \<longleftrightarrow> 65 \<le> (of_char c :: nat) \<and> (of_char c :: nat) \<le> 90"

definition isLower :: "char \<Rightarrow> bool" where
  "isLower c \<longleftrightarrow> 97 \<le> (of_char c :: nat) \<and> (of_char c :: nat) \<le> 122"

definition isDigit :: "char \<Rightarrow> bool" where
  "isDigit c \<longleftrightarrow> 48 \<le> (of_char c :: nat) \<and> (of_char c :: nat) \<le> 57"

text \<open>The class \<open>\w\<close> of a regular expression: letters, digits and the underscore.\<close>

definition isWordChar :: "char \<Rightarrow> bool" where
  "isWordChar c \<longleftrightarrow> isUpper c \<or> isLower c \<or> isDigit c \<or> c = CHR ''_''"

definition toLowerChar :: "char \<Rightarrow> char" where
  "toLowerChar c = (if isUpper c then char_of (of_char c + (32 :: nat)) else c)"

text \<open>
  \<open>replaceBUpper\<close> is \<open>str.replace(/\B([A-Z])/g, "-$1")\<close>: a capital letter is a word
  character, so the position before it is not a word boundary exactly when a word
  character precedes it. The flag says whether the previous character was one.
\<close>

fun replaceBUpper :: "bool \<Rightarrow> string \<Rightarrow> string" where
  "replaceBUpper prevWord [] = []"
| "replaceBUpper prevWord (c # cs) =
     (if isUpper c \<and> prevWord then CHR ''-'' # c # replaceBUpper (isWordChar c) cs
      else c # replaceBUpper (isWordChar c) cs)"

text \<open>
  Modelled from the spec: \<open>hyphenate\<close> of \<open>@mini/shared\<close>, as
  \<open>str.replace(/\B([A-Z])/g, "-$1").toLowerCase()\<close>.
\<close>

definition hyphenate :: "string \<Rightarrow> string" where
  "hyphenate str = map toLowerChar (replaceBUpper False str)"

datatype EventListenerOptions = EventListenerOptions (capture: bool)

definition parseName :: "string \<Rightarrow> string \<times> EventListenerOptions option" where
  "parseName name =
     (let options = None;
          event = (if 2 < length name \<and> name ! 2 = CHR '':'' then drop 3 name
                   else hyphenate (drop 2 name))
      in (event, options))"

section \<open>Functions, events and the error channel\<close>

text \<open>
  A handler is a JavaScript function. What the event module can observe of a handler is
  its identity, whether it calls \<open>e.stopImmediatePropagation()\<close> on the event it is given
  and whether it throws; a handler is modelled by its name and the list of such actions
  it performs in order. \<open>Guarded fn\<close> is the closure
  \<^verbatim>\<open>(e: Event) => !(e as any)._stopped && fn(e)\<close>
  that \<open>patchStopImmediatePropagation\<close> builds around a member of a handler list.
\<close>

datatype action = StopImmediatePropagation | Throw string

datatype fn = Handler (fnName: nat) (fnBody: "action list") | Guarded fn

text \<open>\<open>type EventValue = Function | Function[]\<close>\<close>

datatype EventValue = Single fn | Many "fn list"

text \<open>
  The method \<open>stopImmediatePropagation\<close> of an event is either the browser's own, which
  sets the stop-immediate-propagation flag of the event, or the arrow function that
  \<open>patchStopImmediatePropagation\<close> installs over the method found before it:
  \<^verbatim>\<open>
  const originalStop = e.stopImmediatePropagation;
  e.stopImmediatePropagation = () => {
    originalStop.call(e);
    (e as any)._stopped = true;
  };
  \<close>
\<close>

datatype stopFn = NativeStop | PatchedStop stopFn

text \<open>
  The fields \<open>vts\<close> and \<open>stopped\<close> are the private properties \<open>_vts\<close> and \<open>_stopped\<close>;
  \<open>vts = None\<close> is an event that has no property \<open>_vts\<close>. \<open>stopImmediateFlag\<close> is
  the flag of the DOM that the browser's method sets.
\<close>

record Event =
  eventType :: string
  vts :: "int option"
  stopped :: bool
  stopImmediatePropagation :: stopFn
  stopImmediateFlag :: bool

fun callStop :: "stopFn \<Rightarrow> Event \<Rightarrow> Event" where
  "callStop NativeStop e = e\<lparr>stopImmediateFlag := True\<rparr>"
| "callStop (PatchedStop originalStop) e = (callStop originalStop e)\<lparr>stopped := True\<rparr>"

text \<open>Running a function body on an event: the event afterwards and what was thrown.\<close>

fun runBody :: "action list \<Rightarrow> Event \<Rightarrow> Event \<times> string option" where
  "runBody [] e = (e, None)"
| "runBody (StopImmediatePropagation # acts) e =
     runBody acts (callStop (stopImmediatePropagation e) e)"
| "runBody (Throw err # acts) e = (e, Some err)"

text \<open>
  Calling a function on an event gives the event afterwards, the names of the handlers
  whose bodies ran, and what was thrown.
\<close>

fun applyFn :: "fn \<Rightarrow> Event \<Rightarrow> Event \<times> nat list \<times> string option" where
  "applyFn (Handler n body) e = (case runBody body e of (e', thrown) \<Rightarrow> (e', [n], thrown))"
| "applyFn (Guarded f) e = (if stopped e then (e, [], None) else applyFn f e)"

text \<open>
  Modelled from the spec: the enumeration \<open>ErrorCodes\<close> is declared in the module
  \<open>../errorHandling\<close>, which is not among the sources. The event module names one
  member, \<open>NATIVE_EVENT_HANDLER\<close>; the other members are kept apart by a number.
\<close>

datatype ErrorCodes = NATIVE_EVENT_HANDLER | OtherErrorCode nat

datatype microtask = ResetCachedNow

text \<open>
  An invoker is a function object with the properties \<open>value\<close> and \<open>attached\<close>, and with
  the \<open>instance\<close> its closure holds; the fields are called \<open>val\<close>, \<open>attached\<close> and
  \<open>inst\<close>. Invokers are shared between the cache of an element and its native listener
  list and are updated in place, so they live in a heap and are named by their address.
\<close>

record Invoker =
  val :: EventValue
  attached :: int
  inst :: "nat option"

type_synonym ref = nat

text \<open>
  The state of the module and of its environment: the module variable \<open>cachedNow\<close>, the
  microtask queue, the reading of \<open>Date.now()\<close>, the heap of invokers, and two logs that
  the program cannot read: the handler bodies that ran and the errors reported through
  the error channel.
\<close>

record Runtime =
  cachedNow :: int
  microtasks :: "microtask list"
  wallClock :: int
  heap :: "Invoker list"
  calls :: "nat list"
  reported :: "(string \<times> ErrorCodes \<times> nat option) list"

text \<open>
  Modelled from the spec: \<open>callWithAsyncErrorHandling\<close> is imported from the module
  \<open>../errorHandling\<close>, which is not among the sources. The spec gives its contract:
  it invokes one or many functions, catches what they throw and routes it through a
  shared error-reporting channel, and never lets a handler exception escape to the
  caller. \<open>callWithErrorHandling\<close> is the call of one function under that contract; the
  functions of a list are called one by one in the order of the list.
\<close>

definition callWithErrorHandling ::
  "fn \<Rightarrow> nat option \<Rightarrow> ErrorCodes \<Rightarrow> Event \<Rightarrow> Runtime \<Rightarrow> Event \<times> Runtime" where
  "callWithErrorHandling f instance type e rt =
     (case applyFn f e of
        (e', called, None) \<Rightarrow> (e', rt\<lparr>calls := calls rt @ called\<rparr>)
      | (e', called, Some err) \<Rightarrow>
          (e', rt\<lparr>calls := calls rt @ called,
                  reported := reported rt @ [(err, type, instance)]\<rparr>))"

text \<open>
  Modelled from the spec: the loop of \<open>callWithAsyncErrorHandling\<close> over a list of
  functions, each called under the contract above, so that what one function throws
  does not keep the next from being called.
\<close>

fun callEach ::
  "fn list \<Rightarrow> nat option \<Rightarrow> ErrorCodes \<Rightarrow> Event \<Rightarrow> Runtime \<Rightarrow> Event \<times> Runtime" where
  "callEach [] instance type e rt = (e, rt)"
| "callEach (f # fs) instance type e rt =
     (case callWithErrorHandling f instance type e rt of
        (e', rt') \<Rightarrow> callEach fs instance type e' rt')"

text \<open>
  Modelled from the spec: \<open>callWithAsyncErrorHandling(fnOrFns, context, errorCodeKind,
  args)\<close> with the event as the one argument.
\<close>

fun callWithAsyncErrorHandling ::
  "EventValue \<Rightarrow> nat option \<Rightarrow> ErrorCodes \<Rightarrow> Event \<Rightarrow> Runtime \<Rightarrow> Event \<times> Runtime" where
  "callWithAsyncErrorHandling (Single f) instance type e rt =
     callWithErrorHandling f instance type e rt"
| "callWithAsyncErrorHandling (Many fs) instance type e rt = callEach fs instance type e rt"

section \<open>The tick clock\<close>

text \<open>
  \<^verbatim>\<open>
  let cachedNow: number = 0;
  const p = Promise.resolve();
  const getNow = () =>
    cachedNow || (p.then(() => (cachedNow = 0)), (cachedNow = Date.now()));
  \<close>
  A number is falsy when it is 0. \<open>p\<close> is resolved, so \<open>p.then\<close> puts its callback at
  the end of the microtask queue at once.
\<close>

definition getNow :: "Runtime \<Rightarrow> int \<times> Runtime" where
  "getNow rt =
     (if cachedNow rt \<noteq> 0 then (cachedNow rt, rt)
      else (wallClock rt,
            rt\<lparr>microtasks := microtasks rt @ [ResetCachedNow], cachedNow := wallClock rt\<rparr>))"

fun runMicrotask :: "microtask \<Rightarrow> Runtime \<Rightarrow> Runtime" where
  "runMicrotask ResetCachedNow rt = rt\<lparr>cachedNow := 0\<rparr>"

text \<open>The end of a tick: the queued microtasks run in order and the queue is empty.\<close>

definition drainMicrotasks :: "Runtime \<Rightarrow> Runtime" where
  "drainMicrotasks rt = (fold runMicrotask (microtasks rt) rt)\<lparr>microtasks := []\<rparr>"

text \<open>Time passing: the next reading of \<open>Date.now()\<close> is \<open>t\<close>.\<close>

definition clockReads :: "int \<Rightarrow> Runtime \<Rightarrow> Runtime" where
  "clockReads t rt = rt\<lparr>wallClock := t\<rparr>"

section \<open>Invokers\<close>

text \<open>
  \<^verbatim>\<open>
  function patchStopImmediatePropagation(e: Event, value: EventValue): EventValue {
    if (isArray(value)) {
      const originalStop = e.stopImmediatePropagation;
      e.stopImmediatePropagation = () => { originalStop.call(e); (e as any)._stopped = true; };
      return (value as Function[]).map((fn) => (e: Event) => !(e as any)._stopped && fn(e));
    } else {
      return value;
    }
  }
  \<close>
  The event is changed in place; the model returns it with the value.
\<close>

fun patchStopImmediatePropagation :: "Event \<Rightarrow> EventValue \<Rightarrow> Event \<times> EventValue" where
  "patchStopImmediatePropagation e (Many fs) =
     (e\<lparr>stopImmediatePropagation := PatchedStop (stopImmediatePropagation e)\<rparr>,
      Many (map Guarded fs))"
| "patchStopImmediatePropagation e (Single f) = (e, Single f)"

text \<open>
  The body of the closure that \<open>createInvoker\<close> returns, for the invoker at address \<open>r\<close>:
  \<^verbatim>\<open>
  if (!e._vts) {
    e._vts = Date.now();
  } else if (e._vts < invoker.attached) {
    return;
  }
  callWithAsyncErrorHandling(
    patchStopImmediatePropagation(e, invoker.value), instance,
    ErrorCodes.NATIVE_EVENT_HANDLER, [e]);
  \<close>
  \<open>!e._vts\<close> holds when the property is missing and when it is 0. \<open>deliver\<close> is the
  last statement. A reference always names an allocated object; an address outside the
  heap, which no reference has, does nothing.
\<close>

definition deliver :: "Invoker \<Rightarrow> Event \<Rightarrow> Runtime \<Rightarrow> Event \<times> Runtime" where
  "deliver invoker e rt =
     (case patchStopImmediatePropagation e (val invoker) of
        (e', fns) \<Rightarrow> callWithAsyncErrorHandling fns (inst invoker) NATIVE_EVENT_HANDLER e' rt)"

definition falsy :: "int option \<Rightarrow> bool" where
  "falsy n \<longleftrightarrow> n = None \<or> n = Some 0"

definition invoke :: "ref \<Rightarrow> Event \<Rightarrow> Runtime \<Rightarrow> Event \<times> Runtime" where
  "invoke r e rt =
     (if r < length (heap rt) then
        (let invoker = heap rt ! r in
         if falsy (vts e) then deliver invoker (e\<lparr>vts := Some (wallClock rt)\<rparr>) rt
         else if the (vts e) < attached invoker then (e, rt)
         else deliver invoker e rt)
      else (e, rt))"

text \<open>
  \<^verbatim>\<open>
  function createInvoker(initialValue: EventValue, instance?) {
    const invoker: Invoker = (e) => { ... };
    invoker.value = initialValue;
    invoker.attached = getNow();
    return invoker;
  }
  \<close>
  The new object takes the next free address.
\<close>

definition createInvoker :: "EventValue \<Rightarrow> nat option \<Rightarrow> Runtime \<Rightarrow> ref \<times> Runtime" where
  "createInvoker initialValue instance rt =
     (case getNow rt of
        (now, rt') \<Rightarrow>
          (length (heap rt'),
           rt'\<lparr>heap := heap rt' @ [\<lparr>val = initialValue, attached = now, inst = instance\<rparr>]\<rparr>))"

section \<open>Elements and their listeners\<close>

text \<open>
  The part of a DOM element that the event module uses: its event listener list, and the
  property \<open>el[veiKey]\<close> holding the invoker cache. A listener is identified by its type,
  its callback and its capture flag. \<open>vei = None\<close> is an element without the property;
  in the cache \<open>Some None\<close> is a property whose value is \<open>undefined\<close>. A cache is created
  as \<open>{}\<close> and is read at event property names, which start with \<open>on\<close>: no inherited
  property is read. \<open>domLog\<close> records the calls of the two native methods, which the
  program cannot read.
\<close>

record Listener =
  lType :: string
  lCallback :: ref
  lCapture :: bool

datatype DomCall =
  AddEventListenerCall string ref "EventListenerOptions option"
| RemoveEventListenerCall string "ref option" "EventListenerOptions option"

record Element =
  vei :: "(string \<rightharpoonup> ref option) option"
  listeners :: "Listener list"
  domLog :: "DomCall list"

definition captureOf :: "EventListenerOptions option \<Rightarrow> bool" where
  "captureOf options = (case options of None \<Rightarrow> False | Some opts \<Rightarrow> capture opts)"

text \<open>
  The two methods of the DOM: adding a listener that the list already has changes
  nothing, removing takes the listener with this type, callback and capture flag out of
  the list, and a callback that is \<open>undefined\<close> matches no listener.
\<close>

definition nativeAdd :: "Listener \<Rightarrow> Listener list \<Rightarrow> Listener list" where
  "nativeAdd l ls = (if l \<in> set ls then ls else ls @ [l])"

definition nativeRemove :: "Listener \<Rightarrow> Listener list \<Rightarrow> Listener list" where
  "nativeRemove l ls = filter (\<lambda>l'. l' \<noteq> l) ls"

definition addEventListener ::
  "Element \<Rightarrow> string \<Rightarrow> ref \<Rightarrow> EventListenerOptions option \<Rightarrow> Element" where
  "addEventListener el event handler options =
     el\<lparr>listeners :=
          nativeAdd \<lparr>lType = event, lCallback = handler, lCapture = captureOf options\<rparr>
            (listeners el),
        domLog := domLog el @ [AddEventListenerCall event handler options]\<rparr>"

definition removeEventListener ::
  "Element \<Rightarrow> string \<Rightarrow> ref option \<Rightarrow> EventListenerOptions option \<Rightarrow> Element" where
  "removeEventListener el event handler options =
     el\<lparr>listeners :=
          (case handler of
             None \<Rightarrow> listeners el
           | Some h \<Rightarrow>
               nativeRemove \<lparr>lType = event, lCallback = h, lCapture = captureOf options\<rparr>
                 (listeners el)),
        domLog := domLog el @ [RemoveEventListenerCall event handler options]\<rparr>"

text \<open>
  Dispatching an event at an element: the listeners of the event's type are called in
  the order of the list, until one of them has set the stop-immediate-propagation flag.
\<close>

fun fire :: "Listener list \<Rightarrow> Event \<Rightarrow> Runtime \<Rightarrow> Event \<times> Runtime" where
  "fire [] e rt = (e, rt)"
| "fire (l # ls) e rt =
     (if stopImmediateFlag e then (e, rt)
      else if lType l = eventType e then
        (case invoke (lCallback l) e rt of (e', rt') \<Rightarrow> fire ls e' rt')
      else fire ls e rt)"

definition dispatchEvent :: "Element \<Rightarrow> Event \<Rightarrow> Runtime \<Rightarrow> Event \<times> Runtime" where
  "dispatchEvent el e rt = fire (listeners el) e rt"

section \<open>Patching an event binding\<close>

text \<open>
  \<^verbatim>\<open>
  export function patchEvent(el: Element, rawName, nextValue): void {
    const invokers = el[veiKey] || (el[veiKey] = {});
    const existingInvoker = invokers[rawName];
    if (existingInvoker && nextValue) {
      existingInvoker.value = nextValue;
    } else {
      const [name, options] = parseName(rawName);
      if (nextValue) {
        const invoker = (invokers[rawName] = createInvoker(nextValue as EventValue));
        addEventListener(el, name, invoker, options);
      } else {
        removeEventListener(el, name, existingInvoker, options);
        invokers[rawName] = undefined;
      }
    }
  }
  \<close>
  \<open>nextValue\<close> is a handler, a list of handlers (truthy also when the list is empty), or
  an empty value such as \<open>null\<close> or \<open>undefined\<close>, which is \<open>None\<close>.
\<close>

definition cacheOf :: "Element \<Rightarrow> (string \<rightharpoonup> ref option)" where
  "cacheOf el = (case vei el of None \<Rightarrow> Map.empty | Some invokers \<Rightarrow> invokers)"

text \<open>Reading \<open>invokers[rawName]\<close>: a missing property reads as \<open>undefined\<close>.\<close>

definition readSlot :: "(string \<rightharpoonup> ref option) \<Rightarrow> string \<Rightarrow> ref option" where
  "readSlot invokers rawName = (case invokers rawName of None \<Rightarrow> None | Some slot \<Rightarrow> slot)"

definition setValue :: "ref \<Rightarrow> EventValue \<Rightarrow> Runtime \<Rightarrow> Runtime" where
  "setValue r v rt =
     (if r < length (heap rt) then rt\<lparr>heap := (heap rt)[r := (heap rt ! r)\<lparr>val := v\<rparr>]\<rparr>
      else rt)"

definition patchEvent ::
  "Element \<Rightarrow> string \<Rightarrow> EventValue option \<Rightarrow> Runtime \<Rightarrow> Element \<times> Runtime" where
  "patchEvent el rawName nextValue rt =
     (let invokers = cacheOf el;
          el1 = el\<lparr>vei := Some invokers\<rparr>;
          existingInvoker = readSlot invokers rawName
      in case (existingInvoker, nextValue) of
           (Some r, Some v) \<Rightarrow> (el1, setValue r v rt)
         | (_, Some v) \<Rightarrow>
             (case parseName rawName of
                (name, options) \<Rightarrow>
                  (case createInvoker v None rt of
                     (invoker, rt') \<Rightarrow>
                       (addEventListener
                          (el1\<lparr>vei := Some (invokers(rawName \<mapsto> Some invoker))\<rparr>)
                          name invoker options,
                        rt')))
         | (_, None) \<Rightarrow>
             (case parseName rawName of
                (name, options) \<Rightarrow>
                  ((removeEventListener el1 name existingInvoker options)
                     \<lparr>vei := Some (invokers(rawName \<mapsto> None))\<rparr>,
                   rt)))"

section \<open>Observations used in the statements\<close>

text \<open>
  What a handler body does, read off its actions: whether it calls
  \<open>stopImmediatePropagation\<close> before it throws, and what it throws.
\<close>

fun callsStop :: "action list \<Rightarrow> bool" where
  "callsStop [] = False"
| "callsStop (StopImmediatePropagation # acts) = True"
| "callsStop (Throw err # acts) = False"

fun thrownBy :: "action list \<Rightarrow> string option" where
  "thrownBy [] = None"
| "thrownBy (Throw err # acts) = Some err"
| "thrownBy (StopImmediatePropagation # acts) = thrownBy acts"

text \<open>A function given to \<open>patchEvent\<close> is a handler, not one of the module's closures.\<close>

fun isHandler :: "fn \<Rightarrow> bool" where
  "isHandler (Handler n body) = True"
| "isHandler (Guarded f) = False"

definition stops :: "fn \<Rightarrow> bool" where
  "stops f = callsStop (fnBody f)"

text \<open>The members of a handler list up to the first that stops, that one included.\<close>

definition upToStop :: "fn list \<Rightarrow> fn list" where
  "upToStop fs = takeWhile (\<lambda>f. \<not> stops f) fs @ take 1 (dropWhile (\<lambda>f. \<not> stops f) fs)"

text \<open>The entry of the error channel for what a function threw.\<close>

definition report ::
  "ErrorCodes \<Rightarrow> nat option \<Rightarrow> string option \<Rightarrow> (string \<times> ErrorCodes \<times> nat option) list" where
  "report type instance thrown =
     (case thrown of None \<Rightarrow> [] | Some err \<Rightarrow> [(err, type, instance)])"

text \<open>States and events on which the statements are tried.\<close>

definition freshRuntime :: Runtime where
  "freshRuntime =
     \<lparr>cachedNow = 0, microtasks = [], wallClock = 1000, heap = [], calls = [],
      reported = []\<rparr>"

definition freshElement :: Element where
  "freshElement = \<lparr>vei = None, listeners = [], domLog = []\<rparr>"

definition freshEvent :: "string \<Rightarrow> Event" where
  "freshEvent type =
     \<lparr>eventType = type, vts = None, stopped = False,
      stopImmediatePropagation = NativeStop, stopImmediateFlag = False\<rparr>"

definition runtimeWith :: "Invoker \<Rightarrow> Runtime" where
  "runtimeWith invoker = freshRuntime\<lparr>cachedNow := 1000, wallClock := 1005, heap := [invoker]\<rparr>"

definition exampleInvoker :: Invoker where
  "exampleInvoker = \<lparr>val = Single (Handler 7 []), attached = 1000, inst = None\<rparr>"

definition exampleHandlers :: "fn list" where
  "exampleHandlers =
     [Handler 1 [], Handler 2 [Throw ''boom''], Handler 3 [StopImmediatePropagation],
      Handler 4 []]"

definition listInvoker :: Invoker where
  "listInvoker = \<lparr>val = Many exampleHandlers, attached = 1000, inst = None\<rparr>"

text \<open>Entries of the error channel with one error code and one instance.\<close>

definition tagged ::
  "ErrorCodes \<Rightarrow> nat option \<Rightarrow> string list \<Rightarrow> (string \<times> ErrorCodes \<times> nat option) list" where
  "tagged type instance errs = map (\<lambda>err. (err, type, instance)) errs"

definition throwingInvoker :: Invoker where
  "throwingInvoker = \<lparr>val = Single (Handler 9 [Throw ''boom'']), attached = 1000, inst = Some 3\<rparr>"

section \<open>Synchronous runs\<close>

text \<open>
  What can happen in one synchronous stretch of execution, between two runs of the
  microtask queue: time passes, an invoker is created, an event binding of some element
  is patched, an invoker fires on an event.
\<close>

datatype syncOp =
  ClockReads int
| Create EventValue "nat option"
| Patch Element string "EventValue option"
| Fire ref Event

fun runOp :: "syncOp \<Rightarrow> Runtime \<Rightarrow> Runtime" where
  "runOp (ClockReads t) rt = clockReads t rt"
| "runOp (Create v instance) rt = snd (createInvoker v instance rt)"
| "runOp (Patch el rawName nextValue) rt = snd (patchEvent el rawName nextValue rt)"
| "runOp (Fire r e) rt = snd (invoke r e rt)"

definition runSync :: "syncOp list \<Rightarrow> Runtime \<Rightarrow> Runtime" where
  "runSync ops rt = fold runOp ops rt"

fun clockNonzero :: "syncOp \<Rightarrow> bool" where
  "clockNonzero (ClockReads t) = (t \<noteq> 0)"
| "clockNonzero _ = True"

text \<open>Two states that differ at most in the logs of calls and reported errors.\<close>

definition sameModule :: "Runtime \<Rightarrow> Runtime \<Rightarrow> bool" where
  "sameModule rt rt' \<longleftrightarrow>
     cachedNow rt' = cachedNow rt \<and> microtasks rt' = microtasks rt \<and>
     wallClock rt' = wallClock rt \<and> heap rt' = heap rt"

text \<open>
  The invariant of a synchronous run that started with \<open>n\<close> invokers on the heap: the
  clock does not read 0, no invoker has been created while the cache is empty, and the
  invokers created since carry the cached timestamp.
\<close>

definition tickInv :: "nat \<Rightarrow> Runtime \<Rightarrow> bool" where
  "tickInv n rt \<longleftrightarrow>
     n \<le> length (heap rt) \<and> wallClock rt \<noteq> 0 \<and>
     (cachedNow rt = 0 \<longrightarrow> length (heap rt) = n) \<and>
     (\<forall>i. n \<le> i \<and> i < length (heap rt) \<longrightarrow> attached (heap rt ! i) = cachedNow rt)"

definition exampleOps :: "syncOp list" where
  "exampleOps =
     [Create (Single (Handler 1 [])) None, ClockReads 1003,
      Patch freshElement ''onClick'' (Some (Single (Handler 2 []))),
      Fire 0 (freshEvent ''click'')]"

text \<open>
  The callbacks in the listener list of an element are objects of the heap, so none of
  them is at an address that is still free.
\<close>

definition allocated :: "Element \<Rightarrow> Runtime \<Rightarrow> bool" where
  "allocated el rt \<longleftrightarrow> (\<forall>l \<in> set (listeners el). lCallback l < length (heap rt))"

text \<open>The listener under which \<open>patchEvent\<close> registers the invoker at \<open>r\<close>.\<close>

definition listenerOf :: "string \<Rightarrow> ref \<Rightarrow> Listener" where
  "listenerOf rawName r =
     \<lparr>lType = fst (parseName rawName), lCallback = r,
      lCapture = captureOf (snd (parseName rawName))\<rparr>"

text \<open>A fresh element patched with one handler, and then with another.\<close>

definition exampleFn1 :: EventValue where "exampleFn1 = Single (Handler 1 [])"
definition exampleFn2 :: EventValue where "exampleFn2 = Single (Handler 2 [])"

definition patchedOnce :: "Element \<times> Runtime" where
  "patchedOnce = patchEvent freshElement ''onClick'' (Some exampleFn1) freshRuntime"

definition patchedTwice :: "Element \<times> Runtime" where
  "patchedTwice = patchEvent (fst patchedOnce) ''onClick'' (Some exampleFn2) (snd patchedOnce)"

text \<open>The element patched once, unbound again.\<close>

definition detached :: "Element \<times> Runtime" where
  "detached = patchEvent (fst patchedOnce) ''onClick'' None (snd patchedOnce)"

text \<open>A fresh element whose binding is removed, twice.\<close>

definition unbound :: "Element \<times> Runtime" where
  "unbound = patchEvent freshElement ''onClick'' None freshRuntime"

definition unboundAgain :: "Element \<times> Runtime" where
  "unboundAgain = patchEvent (fst unbound) ''onClick'' None (snd unbound)"

section \<open>Reactive proxies\<close>

text \<open>
  Modelled from the spec: the functions \<open>reactive\<close>, \<open>shallowReactive\<close>, \<open>readonly\<close> and
  \<open>shallowReadonly\<close> are exported from the module \<open>./reactive\<close>, which is not among the
  sources. The spec gives their common contract \<open>wrap(target, {deep, readonly})\<close>: a
  value that is not an object passes through unchanged, a target that is already a proxy
  carrying the matching flags is returned as it is, and wrapping the same target twice
  returns the same proxy by way of a cache from targets to proxies. Objects have an
  address in a store; the variant is the pair of flags, and the cache is keyed by target
  and variant.
\<close>

type_synonym addr = nat

datatype jsValue = Primitive int | Object addr

record wrapFlags =
  deep :: bool
  readonly :: bool

datatype heapObject = PlainObject | ProxyOf addr wrapFlags

record Store =
  objects :: "heapObject list"
  proxyCache :: "addr \<times> wrapFlags \<rightharpoonup> addr"

definition carries :: "Store \<Rightarrow> addr \<Rightarrow> wrapFlags \<Rightarrow> bool" where
  "carries s a flags \<longleftrightarrow>
     a < length (objects s) \<and> (case objects s ! a of PlainObject \<Rightarrow> False
                                | ProxyOf target flags' \<Rightarrow> flags' = flags)"

text \<open>
  Modelled from the spec: \<open>wrap(target, {deep, readonly})\<close>, the function behind
  \<open>reactive\<close>, \<open>readonly\<close>, \<open>shallowReactive\<close> and \<open>shallowReadonly\<close>.
\<close>

fun wrap :: "jsValue \<Rightarrow> wrapFlags \<Rightarrow> Store \<Rightarrow> jsValue \<times> Store" where
  "wrap (Primitive n) flags s = (Primitive n, s)"
| "wrap (Object a) flags s =
     (if carries s a flags then (Object a, s)
      else case proxyCache s (a, flags) of
             Some proxy \<Rightarrow> (Object proxy, s)
           | None \<Rightarrow>
               (Object (length (objects s)),
                s\<lparr>objects := objects s @ [ProxyOf a flags],
                   proxyCache := (proxyCache s)((a, flags) \<mapsto> length (objects s))\<rparr>))"

text \<open>Every entry of the cache names a proxy of its target with its flags.\<close>

definition wfStore :: "Store \<Rightarrow> bool" where
  "wfStore s \<longleftrightarrow>
     (\<forall>a flags proxy. proxyCache s (a, flags) = Some proxy \<longrightarrow>
        proxy < length (objects s) \<and> objects s ! proxy = ProxyOf a flags)"

definition plainStore :: Store where
  "plainStore = \<lparr>objects = [PlainObject], proxyCache = Map.empty\<rparr>"

definition reactiveFlags :: wrapFlags where
  "reactiveFlags = \<lparr>deep = True, readonly = False\<rparr>"

section \<open>Inputs at the value 0\<close>

text \<open>An event that carries the dispatch timestamp 0.\<close>

definition staleZeroEvent :: Event where
  "staleZeroEvent = (freshEvent ''input'')\<lparr>vts := Some 0\<rparr>"

text \<open>
  A synchronous run in which the wall clock reads 0 at the first creation of an invoker
  and 5 at the second.
\<close>

definition zeroClockRuntime :: Runtime where
  "zeroClockRuntime = freshRuntime\<lparr>wallClock := 0\<rparr>"

definition zeroClockOps :: "syncOp list" where
  "zeroClockOps =
     [Create (Single (Handler 1 [])) None, ClockReads 5, Create (Single (Handler 2 [])) None]"

section \<open>Properties of event name parsing\<close>

lemma parseName_colon:
  "2 < length name \<Longrightarrow> name ! 2 = CHR '':'' \<Longrightarrow> parseName name = (drop 3 name, None)"
  by (simp add: parseName_def)

lemma parseName_camel:
  "\<not> (2 < length name \<and> name ! 2 = CHR '':'') \<Longrightarrow>
   parseName name = (hyphenate (drop 2 name), None)"
  by (auto simp: parseName_def)

lemma parseName_onClick: "parseName ''onClick'' = (''click'', None)"
  by code_simp

lemma parseName_on_my_event: "parseName ''on:my-event'' = (''my-event'', None)"
  by code_simp

lemma parseName_onDoubleClick: "parseName ''onDoubleClick'' = (''double-click'', None)"
  by code_simp

text \<open>
  C5. For every raw event name, \<open>parseName\<close> returns the segment after the 2-character
  prefix and a colon verbatim when the third character is a colon, and otherwise the
  hyphen-lowercase conversion of the segment after the 2-character prefix; the options
  are always \<open>undefined\<close>. In particular \<open>onClick\<close> gives \<open>click\<close>, \<open>on:my-event\<close> gives
  \<open>my-event\<close> and \<open>onDoubleClick\<close> gives \<open>double-click\<close>.
\<close>

theorem parseName_forms:
  "(2 < length name \<and> name ! 2 = CHR '':'' \<longrightarrow> parseName name = (drop 3 name, None)) \<and>
   (\<not> (2 < length name \<and> name ! 2 = CHR '':'') \<longrightarrow>
      parseName name = (hyphenate (drop 2 name), None)) \<and>
   parseName ''onClick'' = (''click'', None) \<and>
   parseName ''on:my-event'' = (''my-event'', None) \<and>
   parseName ''onDoubleClick'' = (''double-click'', None)"
  using parseName_colon [of name] parseName_camel [of name]
    parseName_onClick parseName_on_my_event parseName_onDoubleClick
  by blast

theorem parseName_forms_witness:
  "2 < length ''on:update'' \<and> ''on:update'' ! 2 = CHR '':'' \<and>
   parseName ''on:update'' = (''update'', None) \<and>
   \<not> (2 < length ''onMouseDown'' \<and> ''onMouseDown'' ! 2 = CHR '':'') \<and>
   parseName ''onMouseDown'' = (''mouse-down'', None)"
proof -
  have colon: "2 < length ''on:update'' \<and> ''on:update'' ! 2 = CHR '':''"
    by simp
  have camel: "\<not> (2 < length ''onMouseDown'' \<and> ''onMouseDown'' ! 2 = CHR '':'')"
    by simp
  have h: "hyphenate (drop 2 ''onMouseDown'') = ''mouse-down''"
    by code_simp
  from colon parseName_forms [of "''on:update''"]
  have "parseName ''on:update'' = (''update'', None)"
    by simp
  moreover from camel parseName_forms [of "''onMouseDown''"] h
  have "parseName ''onMouseDown'' = (''mouse-down'', None)"
    by simp
  ultimately show ?thesis
    using colon camel by blast
qed

section \<open>Handlers and the error channel\<close>

lemma callStop_vts [simp]: "vts (callStop s e) = vts e"
  by (induction s) simp_all

lemma callStop_eventType [simp]: "eventType (callStop s e) = eventType e"
  by (induction s) simp_all

lemma callStop_method [simp]:
  "stopImmediatePropagation (callStop s e) = stopImmediatePropagation e"
  by (induction s) simp_all

lemma callStop_flag [simp]: "stopImmediateFlag (callStop s e) = True"
  by (induction s) simp_all

lemma callStop_stopped_mono: "stopped e \<Longrightarrow> stopped (callStop s e)"
  by (induction s) simp_all

lemma runBody_vts [simp]: "vts (fst (runBody body e)) = vts e"
  by (induction body e rule: runBody.induct) simp_all

lemma runBody_eventType [simp]: "eventType (fst (runBody body e)) = eventType e"
  by (induction body e rule: runBody.induct) simp_all

lemma runBody_method [simp]:
  "stopImmediatePropagation (fst (runBody body e)) = stopImmediatePropagation e"
  by (induction body e rule: runBody.induct) simp_all

lemma runBody_thrown [simp]: "snd (runBody body e) = thrownBy body"
  by (induction body e rule: runBody.induct) simp_all

lemma runBody_stopped_mono: "stopped e \<Longrightarrow> stopped (fst (runBody body e))"
  by (induction body e rule: runBody.induct) (simp_all add: callStop_stopped_mono)

lemma runBody_stopped:
  "stopImmediatePropagation e = PatchedStop s \<Longrightarrow>
   stopped (fst (runBody body e)) = (stopped e \<or> callsStop body)"
proof (induction body e rule: runBody.induct)
  case (2 acts e)
  have "stopped (callStop (stopImmediatePropagation e) e)"
    using 2(2) by simp
  then show ?case
    by (simp add: runBody_stopped_mono)
qed simp_all

lemma applyFn_Handler:
  "applyFn (Handler n body) e = (fst (runBody body e), [n], thrownBy body)"
  by (simp add: split_beta)

lemma applyFn_vts [simp]: "vts (fst (applyFn f e)) = vts e"
  by (induction f) (simp_all add: split_beta)

lemma applyFn_eventType [simp]: "eventType (fst (applyFn f e)) = eventType e"
  by (induction f) (simp_all add: split_beta)

lemma applyFn_method [simp]:
  "stopImmediatePropagation (fst (applyFn f e)) = stopImmediatePropagation e"
  by (induction f) (simp_all add: split_beta)

lemma callWithErrorHandling_eq:
  "callWithErrorHandling f instance type e rt =
     (fst (applyFn f e),
      rt\<lparr>calls := calls rt @ fst (snd (applyFn f e)),
         reported := reported rt @ report type instance (snd (snd (applyFn f e)))\<rparr>)"
  by (simp add: callWithErrorHandling_def report_def split: prod.splits option.splits)

lemma callWithErrorHandling_Handler:
  "callWithErrorHandling (Handler n body) instance type e rt =
     (fst (runBody body e),
      rt\<lparr>calls := calls rt @ [n],
         reported := reported rt @ report type instance (thrownBy body)\<rparr>)"
  by (simp add: callWithErrorHandling_eq split_beta)

lemma callWithErrorHandling_Guarded_stopped:
  "stopped e \<Longrightarrow> callWithErrorHandling (Guarded f) instance type e rt = (e, rt)"
  by (simp add: callWithErrorHandling_eq report_def)

lemma callWithErrorHandling_Guarded_running:
  "\<not> stopped e \<Longrightarrow>
   callWithErrorHandling (Guarded f) instance type e rt =
   callWithErrorHandling f instance type e rt"
  by (simp add: callWithErrorHandling_eq)

lemma callEach_guarded_stopped:
  "stopped e \<Longrightarrow> callEach (map Guarded fs) instance type e rt = (e, rt)"
  by (induction fs) (simp_all add: callWithErrorHandling_Guarded_stopped)

lemma upToStop_Nil [simp]: "upToStop [] = []"
  by (simp add: upToStop_def)

lemma upToStop_Cons:
  "upToStop (f # fs) = (if stops f then [f] else f # upToStop fs)"
  by (simp add: upToStop_def)

lemma callEach_guarded_run:
  "\<forall>f \<in> set fs. isHandler f \<Longrightarrow> stopImmediatePropagation e = PatchedStop s \<Longrightarrow>
   \<not> stopped e \<Longrightarrow>
   snd (callEach (map Guarded fs) instance type e rt) =
     rt\<lparr>calls := calls rt @ map fnName (upToStop fs),
        reported := reported rt @
          concat (map (\<lambda>f. report type instance (thrownBy (fnBody f))) (upToStop fs))\<rparr>"
proof (induction fs arbitrary: e rt)
  case Nil
  then show ?case by simp
next
  case (Cons f fs)
  from Cons.prems(1) obtain n body where f: "f = Handler n body"
    by (cases f) simp_all
  let ?e' = "fst (runBody body e)"
  let ?rt' = "rt\<lparr>calls := calls rt @ [n],
                  reported := reported rt @ report type instance (thrownBy body)\<rparr>"
  have step: "callEach (map Guarded (f # fs)) instance type e rt =
              callEach (map Guarded fs) instance type ?e' ?rt'"
    using Cons.prems(3)
    by (simp add: f callWithErrorHandling_Guarded_running callWithErrorHandling_Handler)
  have patched: "stopImmediatePropagation ?e' = PatchedStop s"
    using Cons.prems(2) by simp
  have flag: "stopped ?e' = callsStop body"
    using runBody_stopped [OF Cons.prems(2), of body] Cons.prems(3) by simp
  show ?case
  proof (cases "stops f")
    case True
    then have "stopped ?e'"
      using flag by (simp add: f stops_def)
    then show ?thesis
      unfolding step using True by (simp add: callEach_guarded_stopped upToStop_Cons f)
  next
    case False
    then have running: "\<not> stopped ?e'"
      using flag by (simp add: f stops_def)
    from Cons.IH [OF _ patched running, of ?rt'] Cons.prems(1) False
    show ?thesis
      unfolding step by (simp add: upToStop_Cons f)
  qed
qed

section \<open>Delivery\<close>

lemma callWithErrorHandling_vts [simp]:
  "vts (fst (callWithErrorHandling f instance type e rt)) = vts e"
  by (simp add: callWithErrorHandling_eq)

lemma callEach_vts [simp]: "vts (fst (callEach fs instance type e rt)) = vts e"
proof (induction fs arbitrary: e rt)
  case (Cons f fs)
  have "vts (fst (callEach fs instance type (fst (callWithErrorHandling f instance type e rt))
          (snd (callWithErrorHandling f instance type e rt)))) =
        vts (fst (callWithErrorHandling f instance type e rt))"
    by (rule Cons.IH)
  then show ?case
    by (simp add: split_beta)
qed simp

lemma deliver_Single:
  "val invoker = Single f \<Longrightarrow>
   deliver invoker e rt = callWithErrorHandling f (inst invoker) NATIVE_EVENT_HANDLER e rt"
  by (simp add: deliver_def)

lemma deliver_Many:
  "val invoker = Many fs \<Longrightarrow>
   deliver invoker e rt =
   callEach (map Guarded fs) (inst invoker) NATIVE_EVENT_HANDLER
     (e\<lparr>stopImmediatePropagation := PatchedStop (stopImmediatePropagation e)\<rparr>) rt"
  by (simp add: deliver_def)

lemma deliver_vts [simp]: "vts (fst (deliver invoker e rt)) = vts e"
  by (cases "val invoker") (simp_all add: deliver_Single deliver_Many)

lemma deliver_Single_Handler:
  "val invoker = Single (Handler n body) \<Longrightarrow>
   snd (deliver invoker e rt) =
     rt\<lparr>calls := calls rt @ [n],
        reported := reported rt @ report NATIVE_EVENT_HANDLER (inst invoker) (thrownBy body)\<rparr>"
  by (simp add: deliver_Single callWithErrorHandling_Handler)

lemma deliver_Many_Handlers:
  "val invoker = Many fs \<Longrightarrow> \<forall>f \<in> set fs. isHandler f \<Longrightarrow> \<not> stopped e \<Longrightarrow>
   snd (deliver invoker e rt) =
     rt\<lparr>calls := calls rt @ map fnName (upToStop fs),
        reported := reported rt @
          concat (map (\<lambda>f. report NATIVE_EVENT_HANDLER (inst invoker) (thrownBy (fnBody f)))
                    (upToStop fs))\<rparr>"
  by (simp add: deliver_Many callEach_guarded_run [where s = "stopImmediatePropagation e"])

lemma deliver_Many_stopped:
  "val invoker = Many fs \<Longrightarrow> stopped e \<Longrightarrow>
   deliver invoker e rt =
     (e\<lparr>stopImmediatePropagation := PatchedStop (stopImmediatePropagation e)\<rparr>, rt)"
  by (simp add: deliver_Many callEach_guarded_stopped)

lemma invoke_unstamped:
  "r < length (heap rt) \<Longrightarrow> falsy (vts e) \<Longrightarrow>
   invoke r e rt = deliver (heap rt ! r) (e\<lparr>vts := Some (wallClock rt)\<rparr>) rt"
  by (simp add: invoke_def)

lemma invoke_stale:
  "r < length (heap rt) \<Longrightarrow> vts e = Some t \<Longrightarrow> t \<noteq> 0 \<Longrightarrow> t < attached (heap rt ! r) \<Longrightarrow>
   invoke r e rt = (e, rt)"
  by (simp add: invoke_def falsy_def)

lemma invoke_current:
  "r < length (heap rt) \<Longrightarrow> vts e = Some t \<Longrightarrow> t \<noteq> 0 \<Longrightarrow> attached (heap rt ! r) \<le> t \<Longrightarrow>
   invoke r e rt = deliver (heap rt ! r) e rt"
  by (simp add: invoke_def falsy_def)

section \<open>The timestamp check of an invoker\<close>

text \<open>
  C1, amended. When an invoker fires on an event: if the event carries no dispatch
  timestamp, or carries the timestamp 0, the invoker stamps it with the current
  wall-clock time and invokes the handler or handlers; if the event carries a timestamp
  other than 0 that is strictly earlier than the invoker's attached time, nothing
  happens and no handler is invoked; if it carries a timestamp other than 0 that is at
  or after the attached time, the handlers are invoked. Invoking is \<open>deliver\<close>: a single
  handler is called, and the handlers of a list are called in order up to the first that
  stops.
\<close>

theorem invoker_timestamp_check:
  assumes "r < length (heap rt)"
  shows
    "(vts e = None \<or> vts e = Some 0 \<longrightarrow>
        invoke r e rt = deliver (heap rt ! r) (e\<lparr>vts := Some (wallClock rt)\<rparr>) rt \<and>
        vts (fst (invoke r e rt)) = Some (wallClock rt)) \<and>
     (\<forall>t. vts e = Some t \<and> t \<noteq> 0 \<and> t < attached (heap rt ! r) \<longrightarrow>
        invoke r e rt = (e, rt)) \<and>
     (\<forall>t. vts e = Some t \<and> t \<noteq> 0 \<and> attached (heap rt ! r) \<le> t \<longrightarrow>
        invoke r e rt = deliver (heap rt ! r) e rt) \<and>
     (\<forall>e' n body. val (heap rt ! r) = Single (Handler n body) \<longrightarrow>
        calls (snd (deliver (heap rt ! r) e' rt)) = calls rt @ [n]) \<and>
     (\<forall>e' fs. val (heap rt ! r) = Many fs \<and> (\<forall>f \<in> set fs. isHandler f) \<and> \<not> stopped e' \<longrightarrow>
        calls (snd (deliver (heap rt ! r) e' rt)) = calls rt @ map fnName (upToStop fs))"
proof (intro conjI allI impI)
  assume none: "vts e = None \<or> vts e = Some 0"
  then show unst: "invoke r e rt = deliver (heap rt ! r) (e\<lparr>vts := Some (wallClock rt)\<rparr>) rt"
    using assms by (simp add: invoke_unstamped falsy_def)
  show "vts (fst (invoke r e rt)) = Some (wallClock rt)"
    by (simp add: unst)
next
  fix t
  assume "vts e = Some t \<and> t \<noteq> 0 \<and> t < attached (heap rt ! r)"
  then show "invoke r e rt = (e, rt)"
    using assms by (simp add: invoke_stale)
next
  fix t
  assume "vts e = Some t \<and> t \<noteq> 0 \<and> attached (heap rt ! r) \<le> t"
  then show "invoke r e rt = deliver (heap rt ! r) e rt"
    using assms by (simp add: invoke_current)
next
  fix e' :: Event and n body
  assume "val (heap rt ! r) = Single (Handler n body)"
  then show "calls (snd (deliver (heap rt ! r) e' rt)) = calls rt @ [n]"
    by (simp add: deliver_Single_Handler)
next
  fix e' :: Event and fs
  assume "val (heap rt ! r) = Many fs \<and> (\<forall>f \<in> set fs. isHandler f) \<and> \<not> stopped e'"
  then show "calls (snd (deliver (heap rt ! r) e' rt)) = calls rt @ map fnName (upToStop fs)"
    by (simp add: deliver_Many_Handlers)
qed


lemma example_heap: "heap (runtimeWith exampleInvoker) ! 0 = exampleInvoker"
  by (simp add: runtimeWith_def freshRuntime_def)

theorem invoker_timestamp_check_witness:
  "0 < length (heap (runtimeWith exampleInvoker)) \<and>
   calls (snd (invoke 0 (freshEvent ''click'') (runtimeWith exampleInvoker))) = [7] \<and>
   vts (fst (invoke 0 (freshEvent ''click'') (runtimeWith exampleInvoker))) = Some 1005 \<and>
   invoke 0 ((freshEvent ''click'')\<lparr>vts := Some 999\<rparr>) (runtimeWith exampleInvoker) =
     ((freshEvent ''click'')\<lparr>vts := Some 999\<rparr>, runtimeWith exampleInvoker) \<and>
   calls (snd (invoke 0 ((freshEvent ''click'')\<lparr>vts := Some 1000\<rparr>)
     (runtimeWith exampleInvoker))) = [7]"
proof -
  let ?rt = "runtimeWith exampleInvoker"
  have len: "0 < length (heap ?rt)"
    by (simp add: runtimeWith_def freshRuntime_def)
  have v: "val (heap ?rt ! 0) = Single (Handler 7 [])" and a: "attached (heap ?rt ! 0) = 1000"
    unfolding example_heap by (simp_all add: exampleInvoker_def)
  have c: "calls ?rt = []" and w: "wallClock ?rt = 1005"
    by (simp_all add: runtimeWith_def freshRuntime_def)
  note g1 = invoker_timestamp_check [OF len, of "freshEvent ''click''"]
  note g2 = invoker_timestamp_check [OF len, of "(freshEvent ''click'')\<lparr>vts := Some 999\<rparr>"]
  note g3 = invoker_timestamp_check [OF len, of "(freshEvent ''click'')\<lparr>vts := Some 1000\<rparr>"]
  have "calls (snd (invoke 0 (freshEvent ''click'') ?rt)) = [7]"
    using g1 v c by (simp add: freshEvent_def)
  moreover have "vts (fst (invoke 0 (freshEvent ''click'') ?rt)) = Some 1005"
    using g1 w by (simp add: freshEvent_def)
  moreover have "invoke 0 ((freshEvent ''click'')\<lparr>vts := Some 999\<rparr>) ?rt =
      ((freshEvent ''click'')\<lparr>vts := Some 999\<rparr>, ?rt)"
    using g2 a by simp
  moreover have "calls (snd (invoke 0 ((freshEvent ''click'')\<lparr>vts := Some 1000\<rparr>) ?rt)) = [7]"
    using g3 v a c by simp
  ultimately show ?thesis
    using len by blast
qed

text \<open>
  Without the condition that the timestamp is not 0 the second case fails: an event that
  carries the timestamp 0, strictly earlier than the attached time 1000 of the invoker,
  is not swallowed. Its handler is called.
\<close>

theorem invoker_timestamp_check_counterexample:
  "vts staleZeroEvent = Some 0 \<and>
   0 < attached (heap (runtimeWith exampleInvoker) ! 0) \<and>
   calls (runtimeWith exampleInvoker) = [] \<and>
   calls (snd (invoke 0 staleZeroEvent (runtimeWith exampleInvoker))) = [7] \<and>
   invoke 0 staleZeroEvent (runtimeWith exampleInvoker) \<noteq>
     (staleZeroEvent, runtimeWith exampleInvoker)"
proof -
  let ?rt = "runtimeWith exampleInvoker"
  have len: "0 < length (heap ?rt)"
    by (simp add: runtimeWith_def freshRuntime_def)
  have stamp: "vts staleZeroEvent = Some 0"
    by (simp add: staleZeroEvent_def)
  have v: "val (heap ?rt ! 0) = Single (Handler 7 [])" and a: "attached (heap ?rt ! 0) = 1000"
    unfolding example_heap by (simp_all add: exampleInvoker_def)
  have c: "calls ?rt = []"
    by (simp add: runtimeWith_def freshRuntime_def)
  have "invoke 0 staleZeroEvent ?rt =
      deliver (heap ?rt ! 0) (staleZeroEvent\<lparr>vts := Some (wallClock ?rt)\<rparr>) ?rt"
    using len stamp by (simp add: invoke_unstamped falsy_def)
  then have called: "calls (snd (invoke 0 staleZeroEvent ?rt)) = [7]"
    using v c by (simp add: deliver_Single_Handler)
  have changed: "invoke 0 staleZeroEvent ?rt \<noteq> (staleZeroEvent, ?rt)"
  proof
    assume "invoke 0 staleZeroEvent ?rt = (staleZeroEvent, ?rt)"
    then have "calls (snd (invoke 0 staleZeroEvent ?rt)) = calls ?rt"
      by simp
    with called c show False
      by simp
  qed
  show ?thesis
    using stamp a c called changed by simp
qed

text \<open>
  C9. An event whose \<open>_vts\<close> is present but 0 is treated as unstamped: the invoker
  overwrites the timestamp with the current wall-clock time and invokes the handler or
  handlers, whatever its attached time is.
\<close>

theorem invoker_zero_timestamp:
  assumes "r < length (heap rt)" and "vts e = Some 0"
  shows
    "invoke r e rt = deliver (heap rt ! r) (e\<lparr>vts := Some (wallClock rt)\<rparr>) rt \<and>
     vts (fst (invoke r e rt)) = Some (wallClock rt) \<and>
     (\<forall>n body. val (heap rt ! r) = Single (Handler n body) \<longrightarrow>
        calls (snd (invoke r e rt)) = calls rt @ [n]) \<and>
     (\<forall>fs. val (heap rt ! r) = Many fs \<and> (\<forall>f \<in> set fs. isHandler f) \<and> \<not> stopped e \<longrightarrow>
        calls (snd (invoke r e rt)) = calls rt @ map fnName (upToStop fs))"
proof -
  have eq: "invoke r e rt = deliver (heap rt ! r) (e\<lparr>vts := Some (wallClock rt)\<rparr>) rt"
    using assms by (simp add: invoke_unstamped falsy_def)
  show ?thesis
    unfolding eq by (simp add: deliver_Single_Handler deliver_Many_Handlers)
qed

theorem invoker_zero_timestamp_witness:
  "0 < length (heap (runtimeWith exampleInvoker)) \<and>
   vts ((freshEvent ''click'')\<lparr>vts := Some 0\<rparr>) = Some 0 \<and>
   0 < attached (heap (runtimeWith exampleInvoker) ! 0) \<and>
   vts (fst (invoke 0 ((freshEvent ''click'')\<lparr>vts := Some 0\<rparr>) (runtimeWith exampleInvoker))) =
     Some 1005 \<and>
   calls (snd (invoke 0 ((freshEvent ''click'')\<lparr>vts := Some 0\<rparr>) (runtimeWith exampleInvoker))) =
     [7]"
proof -
  let ?rt = "runtimeWith exampleInvoker"
  let ?e = "(freshEvent ''click'')\<lparr>vts := Some 0\<rparr>"
  have len: "0 < length (heap ?rt)"
    by (simp add: runtimeWith_def freshRuntime_def)
  have stamp: "vts ?e = Some 0"
    by simp
  have v: "val (heap ?rt ! 0) = Single (Handler 7 [])" and a: "attached (heap ?rt ! 0) = 1000"
    unfolding example_heap by (simp_all add: exampleInvoker_def)
  have c: "calls ?rt = []" and w: "wallClock ?rt = 1005"
    by (simp_all add: runtimeWith_def freshRuntime_def)
  from invoker_zero_timestamp [OF len stamp, THEN conjunct2] v c w
  have "vts (fst (invoke 0 ?e ?rt)) = Some 1005 \<and> calls (snd (invoke 0 ?e ?rt)) = [7]"
    by simp
  then show ?thesis
    using len a by simp
qed

section \<open>Handler lists and stopImmediatePropagation\<close>

lemma callEach_guarded_flag:
  "\<forall>f \<in> set fs. isHandler f \<Longrightarrow> stopImmediatePropagation e = PatchedStop s \<Longrightarrow>
   \<not> stopped e \<Longrightarrow>
   stopped (fst (callEach (map Guarded fs) instance type e rt)) = (\<exists>f \<in> set fs. stops f)"
proof (induction fs arbitrary: e rt)
  case Nil
  then show ?case by simp
next
  case (Cons f fs)
  from Cons.prems(1) obtain n body where f: "f = Handler n body"
    by (cases f) simp_all
  let ?e' = "fst (runBody body e)"
  let ?rt' = "rt\<lparr>calls := calls rt @ [n],
                  reported := reported rt @ report type instance (thrownBy body)\<rparr>"
  have step: "callEach (map Guarded (f # fs)) instance type e rt =
              callEach (map Guarded fs) instance type ?e' ?rt'"
    using Cons.prems(3)
    by (simp add: f callWithErrorHandling_Guarded_running callWithErrorHandling_Handler)
  have patched: "stopImmediatePropagation ?e' = PatchedStop s"
    using Cons.prems(2) by simp
  have flag: "stopped ?e' = callsStop body"
    using runBody_stopped [OF Cons.prems(2), of body] Cons.prems(3) by simp
  show ?case
  proof (cases "stops f")
    case True
    then have "stopped ?e'"
      using flag by (simp add: f stops_def)
    then show ?thesis
      unfolding step using True by (simp add: callEach_guarded_stopped)
  next
    case False
    then have running: "\<not> stopped ?e'"
      using flag by (simp add: f stops_def)
    from Cons.IH [OF _ patched running, of ?rt'] Cons.prems(1) False
    show ?thesis
      unfolding step by simp
  qed
qed

lemma deliver_Many_flag:
  "val invoker = Many fs \<Longrightarrow> \<forall>f \<in> set fs. isHandler f \<Longrightarrow> \<not> stopped e \<Longrightarrow>
   stopped (fst (deliver invoker e rt)) = (\<exists>f \<in> set fs. stops f)"
  by (simp add: deliver_Many callEach_guarded_flag [where s = "stopImmediatePropagation e"])

text \<open>
  C6. When the value of an invoker is a list of handlers, the event is wrapped so that
  calling its \<open>stopImmediatePropagation\<close> does what it did before and also sets the
  private flag \<open>_stopped\<close>; every handler of the list is wrapped, in the order of the
  list, in a function that does nothing when the flag is set and calls the handler
  otherwise. So the handlers run in list order up to the first that stops, and none runs
  when the flag is set from the start.
\<close>

theorem stop_immediate_propagation_patch:
  assumes "patchStopImmediatePropagation e (Many fs) = (e', fns)"
  shows
    "e' = e\<lparr>stopImmediatePropagation := stopImmediatePropagation e'\<rparr> \<and>
     (\<forall>x. callStop (stopImmediatePropagation e') x =
            (callStop (stopImmediatePropagation e) x)\<lparr>stopped := True\<rparr>) \<and>
     fns = Many (map Guarded fs) \<and>
     (\<forall>f x. stopped x \<longrightarrow> applyFn (Guarded f) x = (x, [], None)) \<and>
     (\<forall>f x. \<not> stopped x \<longrightarrow> applyFn (Guarded f) x = applyFn f x) \<and>
     (\<forall>invoker rt. val invoker = Many fs \<and> stopped e \<longrightarrow> deliver invoker e rt = (e', rt)) \<and>
     (\<forall>invoker rt. val invoker = Many fs \<and> (\<forall>f \<in> set fs. isHandler f) \<and> \<not> stopped e \<longrightarrow>
        calls (snd (deliver invoker e rt)) = calls rt @ map fnName (upToStop fs) \<and>
        stopped (fst (deliver invoker e rt)) = (\<exists>f \<in> set fs. stops f))"
proof -
  from assms have e': "e' = e\<lparr>stopImmediatePropagation := PatchedStop (stopImmediatePropagation e)\<rparr>"
    and fns: "fns = Many (map Guarded fs)"
    by auto
  have patched: "stopImmediatePropagation e' = PatchedStop (stopImmediatePropagation e)"
    by (simp add: e')
  have "e' = e\<lparr>stopImmediatePropagation := stopImmediatePropagation e'\<rparr>"
    unfolding patched by (rule e')
  moreover have "\<forall>x. callStop (stopImmediatePropagation e') x =
            (callStop (stopImmediatePropagation e) x)\<lparr>stopped := True\<rparr>"
    unfolding patched by simp
  moreover have "\<forall>f x. stopped x \<longrightarrow> applyFn (Guarded f) x = (x, [], None)"
    by simp
  moreover have "\<forall>f x. \<not> stopped x \<longrightarrow> applyFn (Guarded f) x = applyFn f x"
    by simp
  moreover have "\<forall>invoker rt. val invoker = Many fs \<and> stopped e \<longrightarrow>
      deliver invoker e rt = (e', rt)"
    by (simp add: deliver_Many_stopped e')
  moreover have "\<forall>invoker rt. val invoker = Many fs \<and> (\<forall>f \<in> set fs. isHandler f) \<and>
      \<not> stopped e \<longrightarrow>
        calls (snd (deliver invoker e rt)) = calls rt @ map fnName (upToStop fs) \<and>
        stopped (fst (deliver invoker e rt)) = (\<exists>f \<in> set fs. stops f)"
    by (simp add: deliver_Many_Handlers deliver_Many_flag)
  ultimately show ?thesis
    using fns by blast
qed

lemma upToStop_example: "map fnName (upToStop exampleHandlers) = [1, 2, 3]"
  by (simp add: exampleHandlers_def upToStop_Cons stops_def)

theorem stop_immediate_propagation_patch_witness:
  "patchStopImmediatePropagation (freshEvent ''click'') (Many exampleHandlers) =
     ((freshEvent ''click'')\<lparr>stopImmediatePropagation := PatchedStop NativeStop\<rparr>,
      Many (map Guarded exampleHandlers)) \<and>
   val listInvoker = Many exampleHandlers \<and> list_all isHandler exampleHandlers \<and>
   \<not> stopped (freshEvent ''click'') \<and>
   calls (snd (deliver listInvoker (freshEvent ''click'') freshRuntime)) = [1, 2, 3] \<and>
   stopped (fst (deliver listInvoker (freshEvent ''click'') freshRuntime)) \<and>
   stopped ((freshEvent ''click'')\<lparr>stopped := True\<rparr>) \<and>
   applyFn (Guarded (Handler 4 [])) ((freshEvent ''click'')\<lparr>stopped := True\<rparr>) =
     ((freshEvent ''click'')\<lparr>stopped := True\<rparr>, [], None)"
proof -
  let ?e = "freshEvent ''click''"
  let ?e' = "?e\<lparr>stopImmediatePropagation := PatchedStop NativeStop\<rparr>"
  have p: "patchStopImmediatePropagation ?e (Many exampleHandlers) =
      (?e', Many (map Guarded exampleHandlers))"
    by (simp add: freshEvent_def)
  have v: "val listInvoker = Many exampleHandlers"
    by (simp add: listInvoker_def)
  have h: "\<forall>f \<in> set exampleHandlers. isHandler f"
    by (simp add: exampleHandlers_def)
  have ns: "\<not> stopped ?e"
    by (simp add: freshEvent_def)
  have st: "stopped (?e\<lparr>stopped := True\<rparr>)"
    by simp
  have ex: "\<exists>f \<in> set exampleHandlers. stops f"
    by (simp add: exampleHandlers_def stops_def)
  note t = stop_immediate_propagation_patch [OF p]
  from t v h ns have "calls (snd (deliver listInvoker ?e freshRuntime)) =
      calls freshRuntime @ map fnName (upToStop exampleHandlers)"
    by blast
  then have c: "calls (snd (deliver listInvoker ?e freshRuntime)) = [1, 2, 3]"
    by (simp add: upToStop_example freshRuntime_def)
  from t v h ns have "stopped (fst (deliver listInvoker ?e freshRuntime)) =
      (\<exists>f \<in> set exampleHandlers. stops f)"
    by blast
  then have s: "stopped (fst (deliver listInvoker ?e freshRuntime))"
    using ex by simp
  from t st have g: "applyFn (Guarded (Handler 4 [])) (?e\<lparr>stopped := True\<rparr>) =
      (?e\<lparr>stopped := True\<rparr>, [], None)"
    by blast
  have h': "list_all isHandler exampleHandlers"
    using h by (simp add: list_all_iff)
  show ?thesis
    using p v h' ns c s st g by blast
qed

section \<open>Errors thrown by handlers\<close>

lemma report_tagged: "\<exists>errs. report type instance thrown = tagged type instance errs"
proof (cases thrown)
  case None
  then have "report type instance thrown = tagged type instance []"
    by (simp add: report_def tagged_def)
  then show ?thesis ..
next
  case (Some err)
  then have "report type instance thrown = tagged type instance [err]"
    by (simp add: report_def tagged_def)
  then show ?thesis ..
qed

lemma tagged_append:
  "tagged type instance xs @ tagged type instance ys = tagged type instance (xs @ ys)"
  by (simp add: tagged_def)

lemma callWithErrorHandling_reported:
  "\<exists>errs. reported (snd (callWithErrorHandling f instance type e rt)) =
     reported rt @ tagged type instance errs"
  using report_tagged [of type "instance" "snd (snd (applyFn f e))"]
  by (auto simp: callWithErrorHandling_eq)

lemma callEach_reported:
  "\<exists>errs. reported (snd (callEach fs instance type e rt)) =
     reported rt @ tagged type instance errs"
proof (induction fs arbitrary: e rt)
  case Nil
  have "reported (snd (callEach [] instance type e rt)) = reported rt @ tagged type instance []"
    by (simp add: tagged_def)
  then show ?case ..
next
  case (Cons f fs)
  obtain e' rt' where step: "callWithErrorHandling f instance type e rt = (e', rt')"
    by (cases "callWithErrorHandling f instance type e rt")
  from callWithErrorHandling_reported [of f "instance" type e rt] step
  obtain xs where xs: "reported rt' = reported rt @ tagged type instance xs"
    by auto
  from Cons.IH [of e' rt']
  obtain ys where ys: "reported (snd (callEach fs instance type e' rt')) =
      reported rt' @ tagged type instance ys"
    by auto
  have "reported (snd (callEach (f # fs) instance type e rt)) =
      reported rt @ tagged type instance (xs @ ys)"
    by (simp add: step xs ys tagged_append)
  then show ?case ..
qed

lemma deliver_reported:
  "\<exists>errs. reported (snd (deliver invoker e rt)) =
     reported rt @ tagged NATIVE_EVENT_HANDLER (inst invoker) errs"
proof (cases "val invoker")
  case (Single f)
  then show ?thesis
    using callWithErrorHandling_reported [of f "inst invoker" NATIVE_EVENT_HANDLER e rt]
    by (simp add: deliver_Single)
next
  case (Many fs)
  then show ?thesis
    using callEach_reported [of "map Guarded fs" "inst invoker" NATIVE_EVENT_HANDLER]
    by (simp add: deliver_Many)
qed

lemma invoke_reported:
  "\<exists>errs. reported (snd (invoke r e rt)) =
     reported rt @ tagged NATIVE_EVENT_HANDLER (inst (heap rt ! r)) errs"
proof -
  consider (out) "\<not> r < length (heap rt)"
    | (unstamped) "r < length (heap rt)" "falsy (vts e)"
    | (stale) "r < length (heap rt)" "\<not> falsy (vts e)" "the (vts e) < attached (heap rt ! r)"
    | (current) "r < length (heap rt)" "\<not> falsy (vts e)"
        "\<not> the (vts e) < attached (heap rt ! r)"
    by blast
  then show ?thesis
  proof cases
    case out
    then have "invoke r e rt = (e, rt)"
      by (simp add: invoke_def)
    then have "reported (snd (invoke r e rt)) =
        reported rt @ tagged NATIVE_EVENT_HANDLER (inst (heap rt ! r)) []"
      by (simp add: tagged_def)
    then show ?thesis ..
  next
    case unstamped
    then show ?thesis
      using deliver_reported [of "heap rt ! r" "e\<lparr>vts := Some (wallClock rt)\<rparr>" rt]
      by (simp add: invoke_unstamped)
  next
    case stale
    then have "invoke r e rt = (e, rt)"
      by (simp add: invoke_def)
    then have "reported (snd (invoke r e rt)) =
        reported rt @ tagged NATIVE_EVENT_HANDLER (inst (heap rt ! r)) []"
      by (simp add: tagged_def)
    then show ?thesis ..
  next
    case current
    then have "invoke r e rt = deliver (heap rt ! r) e rt"
      by (simp add: invoke_def)
    then show ?thesis
      using deliver_reported [of "heap rt ! r" e rt] by simp
  qed
qed

text \<open>
  C7. For every handler and every event delivered through an invoker, what the handler
  throws is caught and put on the error channel with the error code
  \<open>NATIVE_EVENT_HANDLER\<close> and the invoker's instance, and the invoker returns: every
  entry that an invoker adds to the channel carries that code, a single handler that
  throws is reported once, and in a list the handlers after one that throws still run.
\<close>

theorem handler_error_reported:
  assumes "r < length (heap rt)"
    and "falsy (vts e) \<or> attached (heap rt ! r) \<le> the (vts e)"
  shows
    "(\<exists>errs. reported (snd (invoke r e rt)) =
        reported rt @ tagged NATIVE_EVENT_HANDLER (inst (heap rt ! r)) errs) \<and>
     (\<forall>n body err. val (heap rt ! r) = Single (Handler n body) \<and> thrownBy body = Some err \<longrightarrow>
        reported (snd (invoke r e rt)) =
          reported rt @ [(err, NATIVE_EVENT_HANDLER, inst (heap rt ! r))] \<and>
        calls (snd (invoke r e rt)) = calls rt @ [n]) \<and>
     (\<forall>fs. val (heap rt ! r) = Many fs \<and> (\<forall>f \<in> set fs. isHandler f) \<and> \<not> stopped e \<longrightarrow>
        reported (snd (invoke r e rt)) =
          reported rt @
          concat (map (\<lambda>f. report NATIVE_EVENT_HANDLER (inst (heap rt ! r)) (thrownBy (fnBody f)))
                    (upToStop fs)) \<and>
        calls (snd (invoke r e rt)) = calls rt @ map fnName (upToStop fs))"
proof -
  obtain e' where eq: "invoke r e rt = deliver (heap rt ! r) e' rt" and st: "stopped e' = stopped e"
  proof (cases "falsy (vts e)")
    case True
    with assms(1) have "invoke r e rt = deliver (heap rt ! r) (e\<lparr>vts := Some (wallClock rt)\<rparr>) rt"
      by (simp add: invoke_unstamped)
    then show ?thesis
      using that by simp
  next
    case False
    with assms have "invoke r e rt = deliver (heap rt ! r) e rt"
      by (simp add: invoke_def)
    then show ?thesis
      using that by simp
  qed
  have "\<forall>n body err. val (heap rt ! r) = Single (Handler n body) \<and> thrownBy body = Some err \<longrightarrow>
        reported (snd (invoke r e rt)) =
          reported rt @ [(err, NATIVE_EVENT_HANDLER, inst (heap rt ! r))] \<and>
        calls (snd (invoke r e rt)) = calls rt @ [n]"
    unfolding eq by (simp add: deliver_Single_Handler report_def)
  moreover have "\<forall>fs. val (heap rt ! r) = Many fs \<and> (\<forall>f \<in> set fs. isHandler f) \<and> \<not> stopped e \<longrightarrow>
        reported (snd (invoke r e rt)) =
          reported rt @
          concat (map (\<lambda>f. report NATIVE_EVENT_HANDLER (inst (heap rt ! r)) (thrownBy (fnBody f)))
                    (upToStop fs)) \<and>
        calls (snd (invoke r e rt)) = calls rt @ map fnName (upToStop fs)"
    unfolding eq using st by (simp add: deliver_Many_Handlers)
  ultimately show ?thesis
    using invoke_reported [of r e rt] by blast
qed

lemma throwing_heap: "heap (runtimeWith throwingInvoker) ! 0 = throwingInvoker"
  by (simp add: runtimeWith_def freshRuntime_def)

lemma list_heap: "heap (runtimeWith listInvoker) ! 0 = listInvoker"
  by (simp add: runtimeWith_def freshRuntime_def)

theorem handler_error_reported_witness:
  "0 < length (heap (runtimeWith throwingInvoker)) \<and>
   falsy (vts (freshEvent ''click'')) \<and>
   reported (snd (invoke 0 (freshEvent ''click'') (runtimeWith throwingInvoker))) =
     [(''boom'', NATIVE_EVENT_HANDLER, Some 3)] \<and>
   calls (snd (invoke 0 (freshEvent ''click'') (runtimeWith throwingInvoker))) = [9] \<and>
   0 < length (heap (runtimeWith listInvoker)) \<and>
   reported (snd (invoke 0 (freshEvent ''click'') (runtimeWith listInvoker))) =
     [(''boom'', NATIVE_EVENT_HANDLER, None)] \<and>
   calls (snd (invoke 0 (freshEvent ''click'') (runtimeWith listInvoker))) = [1, 2, 3]"
proof -
  let ?e = "freshEvent ''click''"
  have len1: "0 < length (heap (runtimeWith throwingInvoker))"
    and len2: "0 < length (heap (runtimeWith listInvoker))"
    by (simp_all add: runtimeWith_def freshRuntime_def)
  have unst: "falsy (vts ?e) \<or> attached (heap (runtimeWith throwingInvoker) ! 0) \<le> the (vts ?e)"
    and unst2: "falsy (vts ?e) \<or> attached (heap (runtimeWith listInvoker) ! 0) \<le> the (vts ?e)"
    and f: "falsy (vts ?e)"
    by (simp_all add: freshEvent_def falsy_def)
  have v1: "val (heap (runtimeWith throwingInvoker) ! 0) = Single (Handler 9 [Throw ''boom''])"
    and i1: "inst (heap (runtimeWith throwingInvoker) ! 0) = Some 3"
    unfolding throwing_heap by (simp_all add: throwingInvoker_def)
  have v2: "val (heap (runtimeWith listInvoker) ! 0) = Many exampleHandlers"
    and i2: "inst (heap (runtimeWith listInvoker) ! 0) = None"
    unfolding list_heap by (simp_all add: listInvoker_def)
  have empty: "reported (runtimeWith throwingInvoker) = []" "calls (runtimeWith throwingInvoker) = []"
    "reported (runtimeWith listInvoker) = []" "calls (runtimeWith listInvoker) = []"
    by (simp_all add: runtimeWith_def freshRuntime_def)
  have th: "thrownBy [Throw ''boom''] = Some ''boom''"
    by simp
  have h: "\<forall>f \<in> set exampleHandlers. isHandler f"
    by (simp add: exampleHandlers_def)
  have ns: "\<not> stopped ?e"
    by (simp add: freshEvent_def)
  have reps: "concat (map (\<lambda>f. report NATIVE_EVENT_HANDLER None (thrownBy (fnBody f)))
      (upToStop exampleHandlers)) = [(''boom'', NATIVE_EVENT_HANDLER, None)]"
    by (simp add: exampleHandlers_def upToStop_Cons stops_def report_def)
  note t1 = handler_error_reported [OF len1 unst, THEN conjunct2, THEN conjunct1]
  note t2 = handler_error_reported [OF len2 unst2, THEN conjunct2, THEN conjunct2]
  from t1 v1 th i1 empty
  have a: "reported (snd (invoke 0 ?e (runtimeWith throwingInvoker))) =
      [(''boom'', NATIVE_EVENT_HANDLER, Some 3)] \<and>
      calls (snd (invoke 0 ?e (runtimeWith throwingInvoker))) = [9]"
    by simp
  from t2 v2 h ns
  have "reported (snd (invoke 0 ?e (runtimeWith listInvoker))) =
          reported (runtimeWith listInvoker) @
          concat (map (\<lambda>f. report NATIVE_EVENT_HANDLER (inst (heap (runtimeWith listInvoker) ! 0))
             (thrownBy (fnBody f))) (upToStop exampleHandlers)) \<and>
        calls (snd (invoke 0 ?e (runtimeWith listInvoker))) =
          calls (runtimeWith listInvoker) @ map fnName (upToStop exampleHandlers)"
    by blast
  then have b: "reported (snd (invoke 0 ?e (runtimeWith listInvoker))) =
      [(''boom'', NATIVE_EVENT_HANDLER, None)] \<and>
      calls (snd (invoke 0 ?e (runtimeWith listInvoker))) = [1, 2, 3]"
    unfolding i2 reps upToStop_example empty by simp
  show ?thesis
    using len1 len2 f a b by blast
qed

section \<open>The tick clock and the attached time\<close>

lemma sameModule_refl [simp]: "sameModule rt rt"
  by (simp add: sameModule_def)

lemma sameModule_trans: "sameModule a b \<Longrightarrow> sameModule b c \<Longrightarrow> sameModule a c"
  by (simp add: sameModule_def)

lemma callWithErrorHandling_frame:
  "sameModule rt (snd (callWithErrorHandling f instance type e rt))"
  by (simp add: callWithErrorHandling_eq sameModule_def)

lemma callEach_frame: "sameModule rt (snd (callEach fs instance type e rt))"
proof (induction fs arbitrary: e rt)
  case (Cons f fs)
  obtain e' rt' where step: "callWithErrorHandling f instance type e rt = (e', rt')"
    by (cases "callWithErrorHandling f instance type e rt")
  have "sameModule rt rt'"
    using callWithErrorHandling_frame [of rt f "instance" type e] step by simp
  moreover have "sameModule rt' (snd (callEach fs instance type e' rt'))"
    by (rule Cons.IH)
  ultimately show ?case
    using step by (simp add: sameModule_trans)
qed simp

lemma deliver_frame: "sameModule rt (snd (deliver invoker e rt))"
  by (cases "val invoker")
    (simp_all add: deliver_Single deliver_Many callWithErrorHandling_frame callEach_frame)

lemma invoke_frame: "sameModule rt (snd (invoke r e rt))"
  by (simp add: invoke_def Let_def deliver_frame)

lemma tickInv_sameModule: "tickInv n rt \<Longrightarrow> sameModule rt rt' \<Longrightarrow> tickInv n rt'"
  by (simp add: tickInv_def sameModule_def)

lemma tickInv_clockReads: "tickInv n rt \<Longrightarrow> t \<noteq> 0 \<Longrightarrow> tickInv n (clockReads t rt)"
  by (simp add: tickInv_def clockReads_def)

lemma tickInv_createInvoker:
  "tickInv n rt \<Longrightarrow> tickInv n (snd (createInvoker v instance rt))"
  by (auto simp: tickInv_def createInvoker_def getNow_def nth_append)

lemma tickInv_setValue: "tickInv n rt \<Longrightarrow> tickInv n (setValue r v rt)"
  by (auto simp: tickInv_def setValue_def nth_list_update)

text \<open>The three branches of \<open>patchEvent\<close>.\<close>

lemma fst_createInvoker [simp]: "fst (createInvoker v instance rt) = length (heap rt)"
  by (simp add: createInvoker_def getNow_def)

lemma patchEvent_update:
  "readSlot (cacheOf el) rawName = Some r \<Longrightarrow>
   patchEvent el rawName (Some v) rt = (el\<lparr>vei := Some (cacheOf el)\<rparr>, setValue r v rt)"
  by (simp add: patchEvent_def Let_def)

lemma patchEvent_create:
  assumes "readSlot (cacheOf el) rawName = None"
  shows "patchEvent el rawName (Some v) rt =
     (addEventListener (el\<lparr>vei := Some ((cacheOf el)(rawName \<mapsto> Some (length (heap rt))))\<rparr>)
        (fst (parseName rawName)) (length (heap rt)) (snd (parseName rawName)),
      snd (createInvoker v None rt))"
proof -
  obtain r rt' where c: "createInvoker v None rt = (r, rt')"
    by (cases "createInvoker v None rt")
  then have "r = length (heap rt)"
    using fst_createInvoker [of v None rt] by simp
  then show ?thesis
    using assms by (simp add: patchEvent_def Let_def c split_beta)
qed

lemma patchEvent_remove:
  "patchEvent el rawName None rt =
     ((removeEventListener (el\<lparr>vei := Some (cacheOf el)\<rparr>) (fst (parseName rawName))
         (readSlot (cacheOf el) rawName) (snd (parseName rawName)))
        \<lparr>vei := Some ((cacheOf el)(rawName \<mapsto> None))\<rparr>,
      rt)"
  by (cases "readSlot (cacheOf el) rawName") (simp_all add: patchEvent_def Let_def split_beta)

lemma patchEvent_runtime:
  "snd (patchEvent el rawName nextValue rt) = rt \<or>
   (\<exists>r v. snd (patchEvent el rawName nextValue rt) = setValue r v rt) \<or>
   (\<exists>v. snd (patchEvent el rawName nextValue rt) = snd (createInvoker v None rt))"
proof (cases nextValue)
  case None
  then show ?thesis
    by (simp add: patchEvent_remove)
next
  case (Some v)
  show ?thesis
  proof (cases "readSlot (cacheOf el) rawName")
    case None
    then have "snd (patchEvent el rawName nextValue rt) = snd (createInvoker v None rt)"
      by (simp add: Some patchEvent_create)
    then show ?thesis by blast
  next
    case (Some r)
    then have "snd (patchEvent el rawName nextValue rt) = setValue r v rt"
      by (simp add: \<open>nextValue = Some v\<close> patchEvent_update)
    then show ?thesis by blast
  qed
qed

lemma tickInv_patchEvent:
  "tickInv n rt \<Longrightarrow> tickInv n (snd (patchEvent el rawName nextValue rt))"
  using patchEvent_runtime [of el rawName nextValue rt]
  by (auto simp: tickInv_setValue tickInv_createInvoker)

lemma tickInv_runOp: "tickInv n rt \<Longrightarrow> clockNonzero op \<Longrightarrow> tickInv n (runOp op rt)"
  by (cases op)
    (simp_all add: tickInv_clockReads tickInv_createInvoker tickInv_patchEvent
      tickInv_sameModule [OF _ invoke_frame])

lemma tickInv_runSync:
  "tickInv n rt \<Longrightarrow> \<forall>op \<in> set ops. clockNonzero op \<Longrightarrow> tickInv n (runSync ops rt)"
  unfolding runSync_def
  by (induction ops arbitrary: rt) (simp_all add: tickInv_runOp)

lemma tickInv_start: "wallClock rt \<noteq> 0 \<Longrightarrow> tickInv (length (heap rt)) rt"
  by (simp add: tickInv_def)

lemma drainMicrotasks_reset:
  "ResetCachedNow \<in> set (microtasks rt) \<Longrightarrow> cachedNow (drainMicrotasks rt) = 0"
proof -
  have "ms \<noteq> [] \<Longrightarrow> cachedNow (fold runMicrotask ms rt') = 0" for ms rt'
  proof (induction ms arbitrary: rt')
    case (Cons m ms)
    show ?case
    proof (cases ms)
      case Nil
      then show ?thesis by (cases m) simp
    next
      case (Cons m' ms')
      then show ?thesis
        using Cons.IH [of "runMicrotask m rt'"] by simp
    qed
  qed simp
  moreover assume "ResetCachedNow \<in> set (microtasks rt)"
  then have "microtasks rt \<noteq> []"
    by auto
  ultimately show ?thesis
    by (simp add: drainMicrotasks_def)
qed


lemma getNow_heap [simp]: "heap (snd (getNow rt)) = heap rt"
  by (simp add: getNow_def)

lemma getNow_cached:
  "cachedNow rt \<noteq> 0 \<or> wallClock rt \<noteq> 0 \<Longrightarrow>
   cachedNow (snd (getNow rt)) = fst (getNow rt) \<and> fst (getNow rt) \<noteq> 0"
  by (simp add: getNow_def)

lemma getNow_hit: "cachedNow rt \<noteq> 0 \<Longrightarrow> getNow rt = (cachedNow rt, rt)"
  by (simp add: getNow_def)

lemma createInvoker_eq:
  "createInvoker v instance rt =
     (length (heap rt),
      (snd (getNow rt))\<lparr>heap := heap rt @ [\<lparr>val = v, attached = fst (getNow rt), inst = instance\<rparr>]\<rparr>)"
  by (simp add: createInvoker_def split_beta)

lemma two_invokers_same_tick:
  assumes "cachedNow rt \<noteq> 0 \<or> wallClock rt \<noteq> 0"
    and "createInvoker v1 i1 rt = (r1, rt1)"
    and "createInvoker v2 i2 (clockReads t rt1) = (r2, rt2)"
  shows "r1 \<noteq> r2 \<and> attached (heap rt2 ! r1) = attached (heap rt2 ! r2)"
proof -
  let ?now = "fst (getNow rt)"
  from assms(2) have r1: "r1 = length (heap rt)"
    and rt1: "rt1 = (snd (getNow rt))\<lparr>heap := heap rt @ [\<lparr>val = v1, attached = ?now, inst = i1\<rparr>]\<rparr>"
    by (simp_all add: createInvoker_eq)
  have cached: "cachedNow (clockReads t rt1) = ?now" and nz: "?now \<noteq> 0"
    using getNow_cached [OF assms(1)] by (simp_all add: rt1 clockReads_def)
  have heap1: "heap (clockReads t rt1) = heap rt @ [\<lparr>val = v1, attached = ?now, inst = i1\<rparr>]"
    by (simp add: rt1 clockReads_def)
  have hit: "getNow (clockReads t rt1) = (?now, clockReads t rt1)"
    using getNow_hit [of "clockReads t rt1"] cached nz by simp
  from assms(3) have r2: "r2 = Suc (length (heap rt))"
    and heap2: "heap rt2 = heap rt @ [\<lparr>val = v1, attached = ?now, inst = i1\<rparr>,
        \<lparr>val = v2, attached = ?now, inst = i2\<rparr>]"
    unfolding createInvoker_eq hit by (auto simp: heap1)
  show ?thesis
    by (simp add: r1 r2 heap2 nth_append)
qed

text \<open>
  C4, amended. \<open>getNow\<close> returns the cached timestamp when one is cached, and otherwise
  reads the wall clock, caches the reading and queues a microtask that resets the cache,
  so that the cache is empty again after the microtasks have run. Consequently two
  invokers created in the same synchronous run have the same attached time, however the
  clock moves in between, provided the wall clock does not read 0, the value that stands
  for an empty cache: stated for two calls of \<open>createInvoker\<close>, where the cache holds a
  timestamp or the first reading is not 0, and for any run of creations, patches,
  dispatches and clock changes in which no reading is 0.
\<close>

theorem getNow_tick_cache:
  "(cachedNow rt \<noteq> 0 \<longrightarrow> getNow rt = (cachedNow rt, rt)) \<and>
   (cachedNow rt = 0 \<longrightarrow>
      getNow rt =
        (wallClock rt,
         rt\<lparr>microtasks := microtasks rt @ [ResetCachedNow], cachedNow := wallClock rt\<rparr>) \<and>
      cachedNow (drainMicrotasks (snd (getNow rt))) = 0) \<and>
   (\<forall>v1 i1 r1 rt1 t v2 i2 r2 rt2.
      (cachedNow rt \<noteq> 0 \<or> wallClock rt \<noteq> 0) \<and> createInvoker v1 i1 rt = (r1, rt1) \<and>
      createInvoker v2 i2 (clockReads t rt1) = (r2, rt2) \<longrightarrow>
      r1 \<noteq> r2 \<and> attached (heap rt2 ! r1) = attached (heap rt2 ! r2)) \<and>
   (\<forall>ops i j.
      wallClock rt \<noteq> 0 \<and> (\<forall>op \<in> set ops. clockNonzero op) \<and>
      length (heap rt) \<le> i \<and> i < length (heap (runSync ops rt)) \<and>
      length (heap rt) \<le> j \<and> j < length (heap (runSync ops rt)) \<longrightarrow>
      attached (heap (runSync ops rt) ! i) = attached (heap (runSync ops rt) ! j))"
proof (intro conjI allI impI)
  assume "cachedNow rt \<noteq> 0"
  then show "getNow rt = (cachedNow rt, rt)"
    by (simp add: getNow_def)
next
  assume empty: "cachedNow rt = 0"
  then show "getNow rt =
        (wallClock rt,
         rt\<lparr>microtasks := microtasks rt @ [ResetCachedNow], cachedNow := wallClock rt\<rparr>)"
    by (simp add: getNow_def)
  then show "cachedNow (drainMicrotasks (snd (getNow rt))) = 0"
    by (simp add: drainMicrotasks_reset)
next
  fix v1 i1 r1 rt1 t v2 i2 r2 rt2
  assume h: "(cachedNow rt \<noteq> 0 \<or> wallClock rt \<noteq> 0) \<and> createInvoker v1 i1 rt = (r1, rt1) \<and>
      createInvoker v2 i2 (clockReads t rt1) = (r2, rt2)"
  then show "r1 \<noteq> r2" "attached (heap rt2 ! r1) = attached (heap rt2 ! r2)"
    using two_invokers_same_tick [of rt v1 i1 r1 rt1 v2 i2 t r2 rt2] by blast+
next
  fix ops i j
  assume h: "wallClock rt \<noteq> 0 \<and> (\<forall>op \<in> set ops. clockNonzero op) \<and>
      length (heap rt) \<le> i \<and> i < length (heap (runSync ops rt)) \<and>
      length (heap rt) \<le> j \<and> j < length (heap (runSync ops rt))"
  then have "tickInv (length (heap rt)) (runSync ops rt)"
    by (simp add: tickInv_start tickInv_runSync)
  with h show "attached (heap (runSync ops rt) ! i) = attached (heap (runSync ops rt) ! j)"
    by (simp add: tickInv_def)
qed

lemma exampleOps_run:
  "length (heap (runSync exampleOps freshRuntime)) = 2 \<and>
   attached (heap (runSync exampleOps freshRuntime) ! 0) = 1000 \<and>
   wallClock (runSync exampleOps freshRuntime) = 1003 \<and>
   calls (runSync exampleOps freshRuntime) = [1]"
  by (simp add: runSync_def exampleOps_def freshRuntime_def freshElement_def freshEvent_def
      createInvoker_def getNow_def clockReads_def patchEvent_def Let_def cacheOf_def readSlot_def
      invoke_def falsy_def deliver_def callWithErrorHandling_def split_beta)

theorem getNow_tick_cache_witness:
  "wallClock freshRuntime \<noteq> 0 \<and> list_all clockNonzero exampleOps \<and>
   length (heap freshRuntime) = 0 \<and> length (heap (runSync exampleOps freshRuntime)) = 2 \<and>
   wallClock (runSync exampleOps freshRuntime) = 1003 \<and>
   attached (heap (runSync exampleOps freshRuntime) ! 0) = 1000 \<and>
   attached (heap (runSync exampleOps freshRuntime) ! 1) = 1000 \<and>
   cachedNow freshRuntime = 0 \<and> fst (getNow freshRuntime) = 1000 \<and>
   cachedNow (drainMicrotasks (snd (getNow freshRuntime))) = 0"
proof -
  let ?rt' = "runSync exampleOps freshRuntime"
  have w: "wallClock freshRuntime \<noteq> 0" and l: "length (heap freshRuntime) = 0"
    and c: "cachedNow freshRuntime = 0" and wc: "wallClock freshRuntime = 1000"
    by (simp_all add: freshRuntime_def)
  have nz: "\<forall>op \<in> set exampleOps. clockNonzero op"
    by (simp add: exampleOps_def)
  note t = getNow_tick_cache [of freshRuntime]
  have len: "length (heap ?rt') = 2" and a0: "attached (heap ?rt' ! 0) = 1000"
    and w': "wallClock ?rt' = 1003"
    using exampleOps_run by blast+
  have "attached (heap ?rt' ! 1) = attached (heap ?rt' ! 0)"
    using t [THEN conjunct2, THEN conjunct2, THEN conjunct2, rule_format, of exampleOps 1 0]
      w nz l len by simp
  then have a: "attached (heap ?rt' ! 1) = 1000"
    using a0 by simp
  have g1: "fst (getNow freshRuntime) = 1000"
    using t [THEN conjunct2, THEN conjunct1] c wc by simp
  have g2: "cachedNow (drainMicrotasks (snd (getNow freshRuntime))) = 0"
    using t [THEN conjunct2, THEN conjunct1] c by blast
  have nz': "list_all clockNonzero exampleOps"
    using nz by (simp add: list_all_iff)
  show ?thesis
    using w nz' l c a a0 g1 g2 len w' by blast
qed

text \<open>
  Without the condition on the clock the consequence fails: when the wall clock reads 0
  at the first creation, \<open>cachedNow\<close> stays 0, the second creation in the same
  synchronous run reads the clock again, and the two invokers have the attached times 0
  and 5.
\<close>

theorem getNow_tick_cache_counterexample:
  "cachedNow zeroClockRuntime = 0 \<and> wallClock zeroClockRuntime = 0 \<and>
   length (heap zeroClockRuntime) = 0 \<and>
   length (heap (runSync zeroClockOps zeroClockRuntime)) = 2 \<and>
   attached (heap (runSync zeroClockOps zeroClockRuntime) ! 0) = 0 \<and>
   attached (heap (runSync zeroClockOps zeroClockRuntime) ! 1) = 5 \<and>
   attached (heap (runSync zeroClockOps zeroClockRuntime) ! 0) \<noteq>
     attached (heap (runSync zeroClockOps zeroClockRuntime) ! 1)"
proof -
  have run: "heap (runSync zeroClockOps zeroClockRuntime) =
      [\<lparr>val = Single (Handler 1 []), attached = 0, inst = None\<rparr>,
       \<lparr>val = Single (Handler 2 []), attached = 5, inst = None\<rparr>]"
    by (simp add: runSync_def zeroClockOps_def zeroClockRuntime_def freshRuntime_def
        createInvoker_def getNow_def clockReads_def)
  have start: "cachedNow zeroClockRuntime = 0" "wallClock zeroClockRuntime = 0"
    "length (heap zeroClockRuntime) = 0"
    by (simp_all add: zeroClockRuntime_def freshRuntime_def)
  show ?thesis
    unfolding run using start by simp
qed

section \<open>Updating a binding in place\<close>

lemma cacheOf_vei [simp]: "cacheOf (el\<lparr>vei := Some m\<rparr>) = m"
  by (simp add: cacheOf_def)

lemma cacheOf_listeners [simp]: "cacheOf (el\<lparr>listeners := ls\<rparr>) = cacheOf el"
  by (simp add: cacheOf_def)

lemma cacheOf_domLog [simp]: "cacheOf (el\<lparr>domLog := ds\<rparr>) = cacheOf el"
  by (simp add: cacheOf_def)

lemma readSlot_upd_same [simp]: "readSlot (m(k \<mapsto> s)) k = s"
  by (simp add: readSlot_def)

lemma readSlot_upd_other [simp]: "k' \<noteq> k \<Longrightarrow> readSlot (m(k \<mapsto> s)) k' = readSlot m k'"
  by (simp add: readSlot_def)

lemma setValue_heap:
  "r < length (heap rt) \<Longrightarrow>
   setValue r v rt = rt\<lparr>heap := (heap rt)[r := (heap rt ! r)\<lparr>val := v\<rparr>]\<rparr>"
  by (simp add: setValue_def)

lemma cached_element:
  assumes "readSlot (cacheOf el) rawName = Some r"
  shows "el\<lparr>vei := Some (cacheOf el)\<rparr> = el"
proof (cases "vei el")
  case None
  then have "readSlot (cacheOf el) rawName = None"
    by (simp add: cacheOf_def readSlot_def)
  with assms show ?thesis
    by simp
next
  case (Some invokers)
  then show ?thesis
    by (simp add: cacheOf_def)
qed

lemma patchEvent_update_element:
  assumes "readSlot (cacheOf el) rawName = Some r"
    and "patchEvent el rawName (Some v) rt = (el', rt')"
  shows "el' = el"
  using assms by (auto simp: patchEvent_update cached_element)

lemma patchEvent_update_runtime:
  assumes "readSlot (cacheOf el) rawName = Some r" and "r < length (heap rt)"
    and "patchEvent el rawName (Some v) rt = (el', rt')"
  shows "rt' = rt\<lparr>heap := (heap rt)[r := (heap rt ! r)\<lparr>val := v\<rparr>]\<rparr>"
  using assms by (auto simp: patchEvent_update setValue_heap)

lemma nativeAdd_new: "l \<notin> set ls \<Longrightarrow> nativeAdd l ls = ls @ [l]"
  by (simp add: nativeAdd_def)

lemma allocated_new:
  "allocated el rt \<Longrightarrow> \<lparr>lType = t, lCallback = length (heap rt), lCapture = c\<rparr> \<notin> set (listeners el)"
  by (auto simp: allocated_def)

lemma patchEvent_create_element:
  assumes "readSlot (cacheOf el) rawName = None" and "allocated el rt"
    and "patchEvent el rawName (Some v) rt = (el', rt')"
  shows "listeners el' = listeners el @ [listenerOf rawName (length (heap rt))] \<and>
         domLog el' = domLog el @
           [AddEventListenerCall (fst (parseName rawName)) (length (heap rt))
              (snd (parseName rawName))] \<and>
         cacheOf el' = (cacheOf el)(rawName \<mapsto> Some (length (heap rt)))"
  using assms
  by (auto simp: patchEvent_create addEventListener_def listenerOf_def nativeAdd_new allocated_new)

lemma patchEvent_create_runtime:
  assumes "readSlot (cacheOf el) rawName = None"
    and "patchEvent el rawName (Some v) rt = (el', rt')"
  shows "rt' = (snd (getNow rt))\<lparr>heap := heap rt @
           [\<lparr>val = v, attached = fst (getNow rt), inst = None\<rparr>]\<rparr>"
  using assms by (auto simp: patchEvent_create createInvoker_eq)

lemma in_place:
  assumes "readSlot (cacheOf el) rawName = Some r" and "r < length (heap rt)"
    and "patchEvent el rawName (Some v) rt = (el', rt')"
  shows
    "el' = el \<and>
     rt' = rt\<lparr>heap := (heap rt)[r := (heap rt ! r)\<lparr>val := v\<rparr>]\<rparr> \<and>
     val (heap rt' ! r) = v \<and> attached (heap rt' ! r) = attached (heap rt ! r) \<and>
     (\<forall>r'. r' \<noteq> r \<longrightarrow> heap rt' ! r' = heap rt ! r')"
proof -
  note el = patchEvent_update_element [OF assms(1) assms(3)]
  note rt = patchEvent_update_runtime [OF assms]
  have "val (heap rt' ! r) = v" "attached (heap rt' ! r) = attached (heap rt ! r)"
    "\<forall>r'. r' \<noteq> r \<longrightarrow> heap rt' ! r' = heap rt ! r'"
    using assms(2) by (simp_all add: rt)
  then show ?thesis
    using el rt by simp
qed

lemma attach_then_update:
  assumes empty: "readSlot (cacheOf el) rawName = None" and alloc: "allocated el rt"
    and first: "patchEvent el rawName (Some fn1) rt = (el1, rt1)"
    and second: "patchEvent el1 rawName (Some fn2) rt1 = (el2, rt2)"
  shows
    "listeners el2 = listeners el @ [listenerOf rawName (length (heap rt))] \<and>
     domLog el2 = domLog el @
       [AddEventListenerCall (fst (parseName rawName)) (length (heap rt))
          (snd (parseName rawName))] \<and>
     readSlot (cacheOf el2) rawName = Some (length (heap rt)) \<and>
     length (heap rt2) = Suc (length (heap rt)) \<and>
     heap rt2 ! length (heap rt) = \<lparr>val = fn2, attached = fst (getNow rt), inst = None\<rparr>"
proof -
  let ?r = "length (heap rt)"
  note el1 = patchEvent_create_element [OF empty alloc first]
  note rt1 = patchEvent_create_runtime [OF empty first]
  have slot: "readSlot (cacheOf el1) rawName = Some ?r"
    using el1 by simp
  have valid: "?r < length (heap rt1)"
    by (simp add: rt1)
  note upd = in_place [OF slot valid second]
  have "heap rt2 ! ?r = \<lparr>val = fn2, attached = fst (getNow rt), inst = None\<rparr>"
    using upd by (simp add: rt1)
  moreover have "length (heap rt2) = Suc ?r"
    using upd by (simp add: rt1)
  ultimately show ?thesis
    using upd el1 slot by simp
qed

text \<open>
  C2. If an invoker exists in the cache of the element for the raw name and the new
  value is not empty, \<open>patchEvent\<close> only replaces the value of that invoker: the element
  is the same, with its listener list, its cache and its log of native calls, so neither
  \<open>addEventListener\<close> nor \<open>removeEventListener\<close> is called; the attached time and every
  other invoker are unchanged. After \<open>patchEvent\<close> with \<open>fn1\<close> and then with \<open>fn2\<close> on a name without
  invoker, \<open>addEventListener\<close> has been called once, the listener list has one new
  listener, and the invoker it names holds \<open>fn2\<close>.
\<close>

theorem patchEvent_updates_in_place:
  "(\<forall>r v el' rt'.
      readSlot (cacheOf el) rawName = Some r \<and> r < length (heap rt) \<and>
      patchEvent el rawName (Some v) rt = (el', rt') \<longrightarrow>
      el' = el \<and>
      rt' = rt\<lparr>heap := (heap rt)[r := (heap rt ! r)\<lparr>val := v\<rparr>]\<rparr> \<and>
      val (heap rt' ! r) = v \<and> attached (heap rt' ! r) = attached (heap rt ! r) \<and>
      (\<forall>r'. r' \<noteq> r \<longrightarrow> heap rt' ! r' = heap rt ! r')) \<and>
   (\<forall>fn1 fn2 el1 rt1 el2 rt2.
      readSlot (cacheOf el) rawName = None \<and> allocated el rt \<and>
      patchEvent el rawName (Some fn1) rt = (el1, rt1) \<and>
      patchEvent el1 rawName (Some fn2) rt1 = (el2, rt2) \<longrightarrow>
      listeners el2 = listeners el @ [listenerOf rawName (length (heap rt))] \<and>
      domLog el2 = domLog el @
        [AddEventListenerCall (fst (parseName rawName)) (length (heap rt))
           (snd (parseName rawName))] \<and>
      readSlot (cacheOf el2) rawName = Some (length (heap rt)) \<and>
      length (heap rt2) = Suc (length (heap rt)) \<and>
      heap rt2 ! length (heap rt) = \<lparr>val = fn2, attached = fst (getNow rt), inst = None\<rparr>)"
  using in_place [of el rawName _ rt] attach_then_update [of el rawName rt]
  by blast

lemma fresh_facts:
  "readSlot (cacheOf freshElement) ''onClick'' = None" "allocated freshElement freshRuntime"
  "listeners freshElement = []" "domLog freshElement = []" "length (heap freshRuntime) = 0"
  "fst (getNow freshRuntime) = 1000"
  by (simp_all add: freshElement_def freshRuntime_def cacheOf_def readSlot_def allocated_def
      getNow_def)

lemma patchedOnce_eq:
  "patchedOnce =
     (\<lparr>vei = Some [''onClick'' \<mapsto> Some 0],
       listeners = [\<lparr>lType = ''click'', lCallback = 0, lCapture = False\<rparr>],
       domLog = [AddEventListenerCall ''click'' 0 None]\<rparr>,
      \<lparr>cachedNow = 1000, microtasks = [ResetCachedNow], wallClock = 1000,
       heap = [\<lparr>val = exampleFn1, attached = 1000, inst = None\<rparr>], calls = [], reported = []\<rparr>)"
  by (simp add: patchedOnce_def patchEvent_create fresh_facts parseName_onClick createInvoker_eq
      addEventListener_def nativeAdd_def captureOf_def)
    (simp add: freshElement_def freshRuntime_def getNow_def cacheOf_def)

lemma patchedTwice_eq:
  "patchedTwice =
     (\<lparr>vei = Some [''onClick'' \<mapsto> Some 0],
       listeners = [\<lparr>lType = ''click'', lCallback = 0, lCapture = False\<rparr>],
       domLog = [AddEventListenerCall ''click'' 0 None]\<rparr>,
      \<lparr>cachedNow = 1000, microtasks = [ResetCachedNow], wallClock = 1000,
       heap = [\<lparr>val = exampleFn2, attached = 1000, inst = None\<rparr>], calls = [], reported = []\<rparr>)"
  unfolding patchedTwice_def patchedOnce_eq
  by (simp add: patchEvent_update [where r = 0] setValue_def cacheOf_def)

lemma patchedTwice_dispatch:
  "calls (snd (dispatchEvent (fst patchedTwice) (freshEvent ''click'') (snd patchedTwice))) = [2]"
  unfolding patchedTwice_eq
  by (simp add: dispatchEvent_def freshEvent_def invoke_def falsy_def deliver_def exampleFn2_def
      callWithErrorHandling_def)

theorem patchEvent_updates_in_place_witness:
  "readSlot (cacheOf freshElement) ''onClick'' = None \<and> allocated freshElement freshRuntime \<and>
   listeners (fst patchedTwice) = [\<lparr>lType = ''click'', lCallback = 0, lCapture = False\<rparr>] \<and>
   domLog (fst patchedTwice) = [AddEventListenerCall ''click'' 0 None] \<and>
   heap (snd patchedTwice) ! 0 = \<lparr>val = exampleFn2, attached = 1000, inst = None\<rparr> \<and>
   readSlot (cacheOf (fst patchedOnce)) ''onClick'' = Some 0 \<and>
   0 < length (heap (snd patchedOnce)) \<and>
   listeners (fst patchedTwice) = listeners (fst patchedOnce) \<and>
   domLog (fst patchedTwice) = domLog (fst patchedOnce) \<and>
   attached (heap (snd patchedTwice) ! 0) = attached (heap (snd patchedOnce) ! 0) \<and>
   calls (snd (dispatchEvent (fst patchedTwice) (freshEvent ''click'') (snd patchedTwice))) = [2]"
proof -
  have p1: "patchEvent freshElement ''onClick'' (Some exampleFn1) freshRuntime =
      (fst patchedOnce, snd patchedOnce)"
    by (simp add: patchedOnce_def)
  have p2: "patchEvent (fst patchedOnce) ''onClick'' (Some exampleFn2) (snd patchedOnce) =
      (fst patchedTwice, snd patchedTwice)"
    by (simp add: patchedTwice_def)
  have slot: "readSlot (cacheOf (fst patchedOnce)) ''onClick'' = Some 0"
    and valid: "0 < length (heap (snd patchedOnce))"
    unfolding patchedOnce_eq by (simp_all add: cacheOf_def)
  have lo: "listenerOf ''onClick'' 0 = \<lparr>lType = ''click'', lCallback = 0, lCapture = False\<rparr>"
    by (simp add: listenerOf_def parseName_onClick captureOf_def)
  from patchEvent_updates_in_place [of freshElement "''onClick''" freshRuntime,
      THEN conjunct2, rule_format, of exampleFn1 "fst patchedOnce" "snd patchedOnce" exampleFn2 "fst patchedTwice"
      "snd patchedTwice"] fresh_facts p1 p2
  have a: "listeners (fst patchedTwice) = [\<lparr>lType = ''click'', lCallback = 0, lCapture = False\<rparr>] \<and>
      domLog (fst patchedTwice) = [AddEventListenerCall ''click'' 0 None] \<and>
      heap (snd patchedTwice) ! 0 = \<lparr>val = exampleFn2, attached = 1000, inst = None\<rparr>"
    by (simp add: lo parseName_onClick)
  note t1 = patchEvent_updates_in_place [of "fst patchedOnce" "''onClick''" "snd patchedOnce",
      THEN conjunct1, rule_format, of 0 exampleFn2 "fst patchedTwice" "snd patchedTwice",
      OF conjI [OF slot conjI [OF valid p2]]]
  from t1 have same: "fst patchedTwice = fst patchedOnce"
    by (rule conjunct1)
  from t1 have "attached (heap (snd patchedTwice) ! 0) = attached (heap (snd patchedOnce) ! 0)"
    by (elim conjE)
  with same
  have b: "listeners (fst patchedTwice) = listeners (fst patchedOnce) \<and>
      domLog (fst patchedTwice) = domLog (fst patchedOnce) \<and>
      attached (heap (snd patchedTwice) ! 0) = attached (heap (snd patchedOnce) ! 0)"
    by simp
  show ?thesis
    using fresh_facts(1,2) a b slot valid patchedTwice_dispatch by blast
qed

section \<open>Removing a binding\<close>

lemma nativeRemove_absent [simp]: "l \<notin> set (nativeRemove l ls)"
  by (simp add: nativeRemove_def)

lemma nativeRemove_last: "l \<notin> set ls \<Longrightarrow> nativeRemove l (ls @ [l]) = ls"
  by (auto simp: nativeRemove_def filter_id_conv)

lemma fire_other_types:
  "\<forall>l \<in> set ls. lType l \<noteq> eventType e \<Longrightarrow> fire ls e rt = (e, rt)"
  by (induction ls) simp_all

lemma patchEvent_remove_present:
  assumes "readSlot (cacheOf el) rawName = Some r"
    and "patchEvent el rawName None rt = (el', rt')"
  shows "rt' = rt \<and>
         listeners el' = nativeRemove (listenerOf rawName r) (listeners el) \<and>
         domLog el' = domLog el @
           [RemoveEventListenerCall (fst (parseName rawName)) (Some r)
              (snd (parseName rawName))] \<and>
         vei el' = Some ((cacheOf el)(rawName \<mapsto> None))"
  using assms by (auto simp: patchEvent_remove removeEventListener_def listenerOf_def)

lemma patchEvent_remove_absent:
  assumes "readSlot (cacheOf el) rawName = None"
    and "patchEvent el rawName None rt = (el', rt')"
  shows "rt' = rt \<and> listeners el' = listeners el \<and>
         domLog el' = domLog el @
           [RemoveEventListenerCall (fst (parseName rawName)) None
              (snd (parseName rawName))] \<and>
         vei el' = Some ((cacheOf el)(rawName \<mapsto> None))"
  using assms by (auto simp: patchEvent_remove removeEventListener_def)

lemma detach:
  assumes slot: "readSlot (cacheOf el) rawName = Some r"
    and patch: "patchEvent el rawName None rt = (el', rt')"
  shows
    "rt' = rt \<and>
     domLog el' = domLog el @
       [RemoveEventListenerCall (fst (parseName rawName)) (Some r) (snd (parseName rawName))] \<and>
     listeners el' = nativeRemove (listenerOf rawName r) (listeners el) \<and>
     listenerOf rawName r \<notin> set (listeners el') \<and>
     vei el' = Some ((cacheOf el)(rawName \<mapsto> None)) \<and>
     readSlot (cacheOf el') rawName = None \<and>
     (\<forall>e rt''. eventType e = fst (parseName rawName) \<and>
        (\<forall>l \<in> set (listeners el). lType l = eventType e \<longrightarrow> l = listenerOf rawName r) \<longrightarrow>
        dispatchEvent el' e rt'' = (e, rt''))"
proof -
  note rm = patchEvent_remove_present [OF slot patch]
  have gone: "listenerOf rawName r \<notin> set (listeners el')"
    using rm by simp
  have "dispatchEvent el' e rt'' = (e, rt'')"
    if "\<forall>l \<in> set (listeners el). lType l = eventType e \<longrightarrow> l = listenerOf rawName r"
    for e rt''
  proof -
    have "\<forall>l \<in> set (listeners el'). lType l \<noteq> eventType e"
      using rm that by (auto simp: nativeRemove_def)
    then show ?thesis
      by (simp add: dispatchEvent_def fire_other_types)
  qed
  moreover have "readSlot (cacheOf el') rawName = None"
    using rm by (simp add: cacheOf_def)
  ultimately show ?thesis
    using rm gone by blast
qed

lemma attach_then_detach:
  assumes empty: "readSlot (cacheOf el) rawName = None" and alloc: "allocated el rt"
    and first: "patchEvent el rawName (Some v) rt = (el1, rt1)"
    and second: "patchEvent el1 rawName None rt1 = (el2, rt2)"
  shows "listeners el2 = listeners el \<and>
         domLog el2 = domLog el @
           [AddEventListenerCall (fst (parseName rawName)) (length (heap rt))
              (snd (parseName rawName)),
            RemoveEventListenerCall (fst (parseName rawName)) (Some (length (heap rt)))
              (snd (parseName rawName))] \<and>
         readSlot (cacheOf el2) rawName = None \<and>
         (\<forall>e rt''. dispatchEvent el2 e rt'' = dispatchEvent el e rt'')"
proof -
  let ?r = "length (heap rt)"
  note el1 = patchEvent_create_element [OF empty alloc first]
  have slot: "readSlot (cacheOf el1) rawName = Some ?r"
    using el1 by simp
  note rm = detach [OF slot second]
  have new: "listenerOf rawName ?r \<notin> set (listeners el)"
    using alloc by (auto simp: allocated_def listenerOf_def)
  have ls: "listeners el2 = listeners el"
    using rm el1 by (simp add: nativeRemove_last [OF new])
  then have "\<forall>e rt''. dispatchEvent el2 e rt'' = dispatchEvent el e rt''"
    by (simp add: dispatchEvent_def)
  then show ?thesis
    using rm el1 ls by simp
qed

text \<open>
  C3. For an element with an invoker cached for a raw name, \<open>patchEvent\<close> with an empty
  value calls \<open>removeEventListener\<close> with the event name and options of that raw name
  and with the invoker, which takes its listener out of the list, and clears the cache
  slot. A later dispatch of the event calls no handler when that listener was the only
  one for the event; and attaching a handler and unbinding it gives back the listeners
  the element had, so it dispatches as before.
\<close>

theorem patchEvent_detaches:
  "(\<forall>r el' rt'.
      readSlot (cacheOf el) rawName = Some r \<and> patchEvent el rawName None rt = (el', rt') \<longrightarrow>
      rt' = rt \<and>
      domLog el' = domLog el @
        [RemoveEventListenerCall (fst (parseName rawName)) (Some r)
           (snd (parseName rawName))] \<and>
      listeners el' = nativeRemove (listenerOf rawName r) (listeners el) \<and>
      listenerOf rawName r \<notin> set (listeners el') \<and>
      vei el' = Some ((cacheOf el)(rawName \<mapsto> None)) \<and>
      readSlot (cacheOf el') rawName = None \<and>
      (\<forall>e rt''. eventType e = fst (parseName rawName) \<and>
         (\<forall>l \<in> set (listeners el). lType l = eventType e \<longrightarrow> l = listenerOf rawName r) \<longrightarrow>
         dispatchEvent el' e rt'' = (e, rt''))) \<and>
   (\<forall>v el1 rt1 el2 rt2.
      readSlot (cacheOf el) rawName = None \<and> allocated el rt \<and>
      patchEvent el rawName (Some v) rt = (el1, rt1) \<and>
      patchEvent el1 rawName None rt1 = (el2, rt2) \<longrightarrow>
      listeners el2 = listeners el \<and>
      domLog el2 = domLog el @
        [AddEventListenerCall (fst (parseName rawName)) (length (heap rt))
           (snd (parseName rawName)),
         RemoveEventListenerCall (fst (parseName rawName)) (Some (length (heap rt)))
           (snd (parseName rawName))] \<and>
      readSlot (cacheOf el2) rawName = None \<and>
      (\<forall>e rt''. dispatchEvent el2 e rt'' = dispatchEvent el e rt''))"
  using detach [of el rawName _ rt] attach_then_detach [of el rawName rt]
  by blast


lemma patchedOnce_facts:
  "readSlot (cacheOf (fst patchedOnce)) ''onClick'' = Some 0"
  "listeners (fst patchedOnce) = [\<lparr>lType = ''click'', lCallback = 0, lCapture = False\<rparr>]"
  "domLog (fst patchedOnce) = [AddEventListenerCall ''click'' 0 None]"
  unfolding patchedOnce_eq by (simp_all add: cacheOf_def)

lemma listenerOf_onClick:
  "listenerOf ''onClick'' r = \<lparr>lType = ''click'', lCallback = r, lCapture = False\<rparr>"
  by (simp add: listenerOf_def parseName_onClick captureOf_def)

lemma patchedOnce_dispatch:
  "calls (snd (dispatchEvent (fst patchedOnce) (freshEvent ''click'') (snd patchedOnce))) = [1]"
  unfolding patchedOnce_eq
  by (simp add: dispatchEvent_def freshEvent_def invoke_def falsy_def deliver_def exampleFn1_def
      callWithErrorHandling_def)

theorem patchEvent_detaches_witness:
  "readSlot (cacheOf (fst patchedOnce)) ''onClick'' = Some 0 \<and>
   eventType (freshEvent ''click'') = fst (parseName ''onClick'') \<and>
   listeners (fst patchedOnce) = [listenerOf ''onClick'' 0] \<and>
   calls (snd (dispatchEvent (fst patchedOnce) (freshEvent ''click'') (snd patchedOnce))) = [1] \<and>
   listeners (fst detached) = [] \<and>
   domLog (fst detached) =
     [AddEventListenerCall ''click'' 0 None, RemoveEventListenerCall ''click'' (Some 0) None] \<and>
   readSlot (cacheOf (fst detached)) ''onClick'' = None \<and>
   snd detached = snd patchedOnce \<and>
   dispatchEvent (fst detached) (freshEvent ''click'') (snd detached) =
     (freshEvent ''click'', snd detached) \<and>
   calls (snd (dispatchEvent (fst detached) (freshEvent ''click'') (snd detached))) = []"
proof -
  let ?e = "freshEvent ''click''"
  have p: "patchEvent (fst patchedOnce) ''onClick'' None (snd patchedOnce) =
      (fst detached, snd detached)"
    by (simp add: detached_def)
  have ty: "eventType ?e = fst (parseName ''onClick'')"
    by (simp add: freshEvent_def parseName_onClick)
  have only: "\<forall>l \<in> set (listeners (fst patchedOnce)).
      lType l = eventType ?e \<longrightarrow> l = listenerOf ''onClick'' 0"
    by (simp add: patchedOnce_facts listenerOf_onClick)
  note t = patchEvent_detaches [of "fst patchedOnce" "''onClick''" "snd patchedOnce",
      THEN conjunct1, rule_format, of 0 "fst detached" "snd detached",
      OF conjI [OF patchedOnce_facts(1) p]]
  have rt: "snd detached = snd patchedOnce"
    using t by blast
  have ls: "listeners (fst detached) = []"
    using t by (simp add: patchedOnce_facts listenerOf_onClick nativeRemove_def)
  have dl: "domLog (fst detached) =
      [AddEventListenerCall ''click'' 0 None, RemoveEventListenerCall ''click'' (Some 0) None]"
    using t by (simp add: patchedOnce_facts parseName_onClick)
  have sl: "readSlot (cacheOf (fst detached)) ''onClick'' = None"
    using t by blast
  have d: "dispatchEvent (fst detached) ?e (snd detached) = (?e, snd detached)"
    using t ty only by blast
  have "calls (snd detached) = []"
    unfolding rt patchedOnce_eq by simp
  then have c: "calls (snd (dispatchEvent (fst detached) ?e (snd detached))) = []"
    by (simp add: d)
  have one: "listeners (fst patchedOnce) = [listenerOf ''onClick'' 0]"
    by (simp add: patchedOnce_facts listenerOf_onClick)
  show ?thesis
    using patchedOnce_facts(1) ty one patchedOnce_dispatch ls dl sl rt d c by blast
qed


text \<open>
  C10. \<open>patchEvent\<close> with an empty value and no invoker cached for the raw name takes the
  removal branch: \<open>removeEventListener\<close> is called with the handler \<open>undefined\<close>, which
  leaves the listeners alone, the cache slot of the raw name is set to \<open>undefined\<close>, and
  the call returns. A second call leaves the cache and the listeners as they are.
\<close>

theorem patchEvent_remove_without_invoker:
  assumes "readSlot (cacheOf el) rawName = None"
    and "patchEvent el rawName None rt = (el', rt')"
  shows
    "rt' = rt \<and> listeners el' = listeners el \<and>
     domLog el' = domLog el @
       [RemoveEventListenerCall (fst (parseName rawName)) None (snd (parseName rawName))] \<and>
     vei el' = Some ((cacheOf el)(rawName \<mapsto> None)) \<and>
     cacheOf el' rawName = Some None \<and>
     (\<forall>k. k \<noteq> rawName \<longrightarrow> cacheOf el' k = cacheOf el k) \<and>
     (\<forall>el'' rt''. patchEvent el' rawName None rt' = (el'', rt'') \<longrightarrow>
        vei el'' = vei el' \<and> listeners el'' = listeners el' \<and> rt'' = rt' \<and>
        domLog el'' = domLog el' @
          [RemoveEventListenerCall (fst (parseName rawName)) None (snd (parseName rawName))])"
proof -
  note one = patchEvent_remove_absent [OF assms]
  have cache: "cacheOf el' = (cacheOf el)(rawName \<mapsto> None)"
    using one by (simp add: cacheOf_def)
  have slot: "readSlot (cacheOf el') rawName = None"
    by (simp add: cache)
  have "vei el'' = vei el' \<and> listeners el'' = listeners el' \<and> rt'' = rt' \<and>
        domLog el'' = domLog el' @
          [RemoveEventListenerCall (fst (parseName rawName)) None (snd (parseName rawName))]"
    if "patchEvent el' rawName None rt' = (el'', rt'')" for el'' rt''
    using patchEvent_remove_absent [OF slot that] one by (simp add: cache)
  then show ?thesis
    using one cache by simp
qed

theorem patchEvent_remove_without_invoker_witness:
  "readSlot (cacheOf freshElement) ''onClick'' = None \<and>
   vei freshElement = None \<and>
   cacheOf (fst unbound) ''onClick'' = Some None \<and>
   listeners (fst unbound) = [] \<and>
   domLog (fst unbound) = [RemoveEventListenerCall ''click'' None None] \<and>
   snd unbound = freshRuntime \<and>
   vei (fst unboundAgain) = vei (fst unbound) \<and>
   listeners (fst unboundAgain) = [] \<and>
   snd unboundAgain = freshRuntime"
proof -
  have p1: "patchEvent freshElement ''onClick'' None freshRuntime = (fst unbound, snd unbound)"
    by (simp add: unbound_def)
  have p2: "patchEvent (fst unbound) ''onClick'' None (snd unbound) =
      (fst unboundAgain, snd unboundAgain)"
    by (simp add: unboundAgain_def)
  note t = patchEvent_remove_without_invoker [OF fresh_facts(1) p1]
  have a: "cacheOf (fst unbound) ''onClick'' = Some None" "listeners (fst unbound) = []"
    "domLog (fst unbound) = [RemoveEventListenerCall ''click'' None None]"
    "snd unbound = freshRuntime"
    using t by (simp_all add: fresh_facts parseName_onClick)
  have b: "vei (fst unboundAgain) = vei (fst unbound) \<and>
      listeners (fst unboundAgain) = listeners (fst unbound) \<and>
      snd unboundAgain = snd unbound"
    using t p2 by blast
  have "vei freshElement = None"
    by (simp add: freshElement_def)
  then show ?thesis
    using fresh_facts(1) a b by simp
qed

section \<open>Identity of reactive proxies\<close>

lemma wfStore_wrap:
  assumes wf: "wfStore s"
  shows "wfStore (snd (wrap v flags s))"
proof (cases v)
  case (Primitive n)
  then show ?thesis
    using wf by simp
next
  case (Object a)
  show ?thesis
  proof (cases "carries s a flags \<or> proxyCache s (a, flags) \<noteq> None")
    case True
    then have "snd (wrap v flags s) = s"
      unfolding Object by (cases "carries s a flags") auto
    then show ?thesis
      using wf by simp
  next
    case False
    then have "snd (wrap v flags s) =
        s\<lparr>objects := objects s @ [ProxyOf a flags],
          proxyCache := (proxyCache s)((a, flags) \<mapsto> length (objects s))\<rparr>"
      by (simp add: Object)
    then show ?thesis
      using wf by (auto simp: wfStore_def nth_append less_Suc_eq)
  qed
qed

lemma wrap_carries:
  assumes "wfStore s" and "wrap (Object a) flags s = (Object p, s')"
  shows "carries s' p flags"
proof (cases "carries s a flags")
  case True
  then show ?thesis
    using assms(2) by simp
next
  case False
  show ?thesis
  proof (cases "proxyCache s (a, flags)")
    case None
    then have "p = length (objects s)"
      and "objects s' = objects s @ [ProxyOf a flags]"
      using assms(2) False by auto
    then show ?thesis
      by (simp add: carries_def)
  next
    case (Some q)
    then have "p = q" "s' = s"
      using assms(2) False by simp_all
    then show ?thesis
      using assms(1) Some by (simp add: wfStore_def carries_def)
  qed
qed

lemma wrap_Object: "\<exists>p. fst (wrap (Object a) flags s) = Object p"
  by (simp split: option.splits)

lemma wrap_miss:
  assumes "\<not> carries s a flags" and "proxyCache s (a, flags) = None"
  shows "wrap (Object a) flags s =
     (Object (length (objects s)),
      s\<lparr>objects := objects s @ [ProxyOf a flags],
        proxyCache := (proxyCache s)((a, flags) \<mapsto> length (objects s))\<rparr>)"
  using assms by simp

lemma wrap_hit:
  assumes "\<not> carries s a flags" and "proxyCache s (a, flags) = Some q"
  shows "wrap (Object a) flags s = (Object q, s)"
  using assms by simp

lemma wrap_carried:
  assumes "carries s a flags"
  shows "wrap (Object a) flags s = (Object a, s)"
  using assms by simp

lemma carries_grow:
  "a < length (objects s) \<Longrightarrow>
   carries (s\<lparr>objects := objects s @ [x], proxyCache := c\<rparr>) a flags = carries s a flags"
  by (simp add: carries_def nth_append)

lemma wrap_again:
  assumes w: "wrap (Object a) flags s = (v, s')" and a: "a < length (objects s)"
  shows "wrap (Object a) flags s' = (v, s')"
proof (cases "carries s a flags")
  case True
  from w have "v = Object a" "s' = s"
    unfolding wrap_carried [OF True] by simp_all
  then show ?thesis
    using wrap_carried [OF True] by simp
next
  case False
  show ?thesis
  proof (cases "proxyCache s (a, flags)")
    case None
    let ?s' = "s\<lparr>objects := objects s @ [ProxyOf a flags],
        proxyCache := (proxyCache s)((a, flags) \<mapsto> length (objects s))\<rparr>"
    from w have v: "v = Object (length (objects s))" and s': "s' = ?s'"
      unfolding wrap_miss [OF False None] by simp_all
    have nc: "\<not> carries ?s' a flags"
      using False by (simp add: carries_grow [OF a])
    have hit: "proxyCache ?s' (a, flags) = Some (length (objects s))"
      by simp
    show ?thesis
      unfolding v s' by (rule wrap_hit [OF nc hit])
  next
    case (Some q)
    from w have "v = Object q" "s' = s"
      unfolding wrap_hit [OF False Some] by simp_all
    then show ?thesis
      using wrap_hit [OF False Some] by simp
  qed
qed

text \<open>
  C8. For every plain object and every variant, wrapping is identity-stable and
  idempotent: wrapping the target again with the same flags returns the same proxy and
  creates nothing, and wrapping the proxy with the same flags returns the proxy itself,
  so that \<open>wrap(O) === wrap(wrap(O))\<close>.
\<close>

theorem wrap_idempotent_identity:
  assumes "wfStore s" and "a < length (objects s)" and "objects s ! a = PlainObject"
    and "wrap (Object a) flags s = (proxy, s1)"
  shows "wrap (Object a) flags s1 = (proxy, s1) \<and> wrap proxy flags s1 = (proxy, s1) \<and>
         fst (wrap (fst (wrap (Object a) flags s)) flags (snd (wrap (Object a) flags s))) =
           fst (wrap (Object a) flags s) \<and>
         (\<exists>p. proxy = Object p \<and> p \<noteq> a \<and> p < length (objects s1) \<and>
            objects s1 ! p = ProxyOf a flags) \<and> wfStore s1"
proof -
  have plain: "\<not> carries s a flags"
    using assms(3) by (simp add: carries_def)
  have again: "wrap (Object a) flags s1 = (proxy, s1)"
    using wrap_again [OF assms(4) assms(2)] .
  have "wfStore (snd (wrap (Object a) flags s))"
    by (rule wfStore_wrap [OF assms(1)])
  then have wf1: "wfStore s1"
    unfolding assms(4) snd_conv .
  obtain p where p: "proxy = Object p"
    and at: "p \<noteq> a \<and> p < length (objects s1) \<and> objects s1 ! p = ProxyOf a flags"
  proof (cases "proxyCache s (a, flags)")
    case None
    from assms(4) have "proxy = Object (length (objects s))"
      and "s1 = s\<lparr>objects := objects s @ [ProxyOf a flags],
        proxyCache := (proxyCache s)((a, flags) \<mapsto> length (objects s))\<rparr>"
      unfolding wrap_miss [OF plain None] by simp_all
    then show ?thesis
      using that [of "length (objects s)"] assms(2) by simp
  next
    case (Some q)
    from assms(4) have "proxy = Object q" and "s1 = s"
      unfolding wrap_hit [OF plain Some] by simp_all
    moreover have "q < length (objects s) \<and> objects s ! q = ProxyOf a flags"
      using assms(1) Some by (simp add: wfStore_def)
    moreover have "q \<noteq> a"
      using calculation assms(3) by auto
    ultimately show ?thesis
      using that [of q] by simp
  qed
  have "carries s1 p flags"
    using at by (simp add: carries_def)
  then have self: "wrap proxy flags s1 = (proxy, s1)"
    unfolding p by (rule wrap_carried)
  have twice: "fst (wrap (fst (wrap (Object a) flags s)) flags (snd (wrap (Object a) flags s))) =
      fst (wrap (Object a) flags s)"
    unfolding assms(4) fst_conv snd_conv self ..
  from p at have "\<exists>p. proxy = Object p \<and> p \<noteq> a \<and> p < length (objects s1) \<and>
      objects s1 ! p = ProxyOf a flags"
    by (intro exI [of _ p]) simp
  with again self twice wf1 show ?thesis
    by (intro conjI)
qed

theorem wrap_idempotent_identity_witness:
  "wfStore plainStore \<and> 0 < length (objects plainStore) \<and>
   objects plainStore ! 0 = PlainObject \<and>
   fst (wrap (Object 0) reactiveFlags plainStore) = Object 1 \<and>
   wrap (Object 0) reactiveFlags (snd (wrap (Object 0) reactiveFlags plainStore)) =
     wrap (Object 0) reactiveFlags plainStore \<and>
   wrap (Object 1) reactiveFlags (snd (wrap (Object 0) reactiveFlags plainStore)) =
     wrap (Object 0) reactiveFlags plainStore"
proof -
  let ?s1 = "snd (wrap (Object 0) reactiveFlags plainStore)"
  have wf: "wfStore plainStore" and len: "0 < length (objects plainStore)"
    and plain: "objects plainStore ! 0 = PlainObject"
    by (simp_all add: wfStore_def plainStore_def)
  have first: "fst (wrap (Object 0) reactiveFlags plainStore) = Object 1"
    by (simp add: plainStore_def carries_def)
  then have w: "wrap (Object 0) reactiveFlags plainStore = (Object 1, ?s1)"
    by (metis prod.collapse)
  note t = wrap_idempotent_identity [OF wf len plain w]
  have "wrap (Object 0) reactiveFlags ?s1 = (Object 1, ?s1)"
    and "wrap (Object 1) reactiveFlags ?s1 = (Object 1, ?s1)"
    using t by blast+
  then show ?thesis
    using wf len plain first w by simp
qed

end
